theory Spec2Isabelle
  imports Main "HOL-Library.Multiset"
begin

section \<open>Cards (src/core/cards.ts)\<close>

text \<open>
  The suits are the four string literals of the source, in the order of \<open>createDeck\<close>;
  the ranks are its thirteen string literals \<open>"A", "2", ..., "10", "J", "Q", "K"\<close>.
\<close>

datatype Suit = Spades | Hearts | Diamonds | Clubs

datatype Rank = RA | R2 | R3 | R4 | R5 | R6 | R7 | R8 | R9 | R10 | RJ | RQ | RK

record Card =
  suit :: Suit
  rank :: Rank

definition ranks :: "Rank list" where
  "ranks = [RA, R2, R3, R4, R5, R6, R7, R8, R9, R10, RJ, RQ, RK]"

definition suits :: "Suit list" where
  "suits = [Spades, Hearts, Diamonds, Clubs]"

text \<open>\<open>createDeck\<close>: the outer loop runs over the suits, the inner one over the ranks.\<close>

definition createDeck :: "Card list" where
  "createDeck = concat (map (\<lambda>s. map (\<lambda>r. \<lparr>suit = s, rank = r\<rparr>) ranks) suits)"

text \<open>
  \<open>shuffle\<close>: the loop runs \<open>i\<close> from \<open>length - 1\<close> down to \<open>1\<close>. The value
  \<open>Math.floor(Math.random() * (i + 1))\<close> drawn at index \<open>i\<close> is the parameter \<open>js i\<close>.
  The source skips the swap (\<open>continue\<close>) when \<open>copy[i]\<close> or \<open>copy[j]\<close> is undefined,
  that is, when an index is out of range; the model keeps that guard.
  \<open>shuffle_loop n\<close> performs the iterations \<open>i = n, n - 1, ..., 1\<close>.
\<close>

fun shuffle_loop :: "(nat \<Rightarrow> nat) \<Rightarrow> nat \<Rightarrow> 'a list \<Rightarrow> 'a list" where
  "shuffle_loop js 0 copy = copy"
| "shuffle_loop js (Suc k) copy =
     (let i = Suc k; j = js i in
      if i < length copy \<and> j < length copy
      then shuffle_loop js k (copy[i := copy ! j, j := copy ! i])
      else shuffle_loop js k copy)"

definition shuffle :: "(nat \<Rightarrow> nat) \<Rightarrow> 'a list \<Rightarrow> 'a list" where
  "shuffle js deck = shuffle_loop js (length deck - 1) deck"

section \<open>The Nerts data model (src/core/nerts.ts)\<close>

type_synonym PlayerId = string

text \<open>
  \<open>NertsCard extends Card\<close>. The field \<open>id\<close> of the source is \<open>id_card\<close> here and the
  player's \<open>id\<close> is \<open>id_player\<close>; the foundation pile's \<open>suit\<close> is \<open>suit_pile\<close>
  (\<open>None\<close> is the source's \<open>null\<close>). Numbers that the source only counts with
  (\<open>score\<close>, \<open>startedAt\<close>, rank values, indices carried by an action) are integers.
  A number that is not an integer selects no array element in the source, as an index out
  of range does.
\<close>

record NertsCard = Card +
  id_card :: string
  ownerId :: PlayerId
  faceUp :: bool

record NertsPlayerState =
  id_player :: PlayerId
  nertsPile :: "NertsCard list"
  tableau :: "NertsCard list list"
  stock :: "NertsCard list"
  waste :: "NertsCard list"
  score :: int

record NertsFoundationPile =
  suit_pile :: "Suit option"
  cards :: "NertsCard list"

record NertsConfig =
  playerIds :: "PlayerId list"

record NertsState =
  players :: "NertsPlayerState list"
  foundations :: "NertsFoundationPile list"
  startedAt :: int
  finished :: bool
  winnerId :: "PlayerId option"

subsection \<open>Array reads of the source\<close>

text \<open>
  \<open>xs[i]\<close> is \<open>undefined\<close> outside \<open>0 .. length - 1\<close>: \<open>nth_js\<close> returns \<open>None\<close> there.
  \<open>top_js xs\<close> is the read \<open>xs[xs.length - 1]\<close>. \<open>indexOf\<close> and \<open>findIndex\<close> return the
  first position; \<open>indexOf\<close> returns \<open>-1\<close> and \<open>findIndex\<close> returns \<open>None\<close> (the source's
  \<open>-1\<close>) when there is none. \<open>find_js\<close> is \<open>Array.prototype.find\<close>.
\<close>

definition nth_js :: "'a list \<Rightarrow> int \<Rightarrow> 'a option" where
  "nth_js xs i = (if 0 \<le> i \<and> i < int (length xs) then Some (xs ! nat i) else None)"

definition top_js :: "'a list \<Rightarrow> 'a option" where
  "top_js xs = nth_js xs (int (length xs) - 1)"

fun indexOf :: "'a list \<Rightarrow> 'a \<Rightarrow> int" where
  "indexOf [] x = - 1"
| "indexOf (y # ys) x =
     (if y = x then 0 else (let r = indexOf ys x in if r = - 1 then - 1 else r + 1))"

fun findIndex :: "('a \<Rightarrow> bool) \<Rightarrow> 'a list \<Rightarrow> nat option" where
  "findIndex P [] = None"
| "findIndex P (x # xs) =
     (if P x then Some 0 else (case findIndex P xs of None \<Rightarrow> None | Some i \<Rightarrow> Some (Suc i)))"

fun find_js :: "('a \<Rightarrow> bool) \<Rightarrow> 'a list \<Rightarrow> 'a option" where
  "find_js P [] = None"
| "find_js P (x # xs) = (if P x then Some x else find_js P xs)"

subsection \<open>Rank and colour helpers\<close>

definition rankOrder :: "Rank list" where
  "rankOrder = [RA, R2, R3, R4, R5, R6, R7, R8, R9, R10, RJ, RQ, RK]"

definition getRankValue :: "Rank \<Rightarrow> int" where
  "getRankValue r = (let idx = indexOf rankOrder r in if idx = - 1 then 0 else idx + 1)"

definition isRedSuit :: "Suit \<Rightarrow> bool" where
  "isRedSuit s = (s = Hearts \<or> s = Diamonds)"

definition makeFaceUp :: "NertsCard \<Rightarrow> NertsCard" where
  "makeFaceUp c = c\<lparr>faceUp := True\<rparr>"

subsection \<open>Actions\<close>

datatype NertsAction =
    StockDraw PlayerId
  | WasteToTableau PlayerId int
  | WasteToFoundation PlayerId int
  | TableauToTableau PlayerId int int string
  | TableauToFoundation PlayerId int int
  | NertsToTableau PlayerId int
  | NertsToFoundation PlayerId int

fun playerId :: "NertsAction \<Rightarrow> PlayerId" where
  "playerId (StockDraw p) = p"
| "playerId (WasteToTableau p tableauIndex) = p"
| "playerId (WasteToFoundation p foundationIndex) = p"
| "playerId (TableauToTableau p fromIndex toIndex cardId) = p"
| "playerId (TableauToFoundation p fromIndex foundationIndex) = p"
| "playerId (NertsToTableau p tableauIndex) = p"
| "playerId (NertsToFoundation p foundationIndex) = p"

definition isNertsFinished :: "NertsState \<Rightarrow> bool" where
  "isNertsFinished state = finished state"

subsection \<open>Rule helpers\<close>

definition canPlaceOnTableau :: "NertsCard option \<Rightarrow> NertsCard \<Rightarrow> bool \<Rightarrow> bool" where
  "canPlaceOnTableau destTop c allowAnyOnEmpty =
     (let cRank = getRankValue (rank c); cRed = isRedSuit (suit c) in
      case destTop of
        None \<Rightarrow> (if allowAnyOnEmpty then True else cRank = 13)
      | Some d \<Rightarrow>
          (let dRank = getRankValue (rank d); dRed = isRedSuit (suit d) in
           cRed \<noteq> dRed \<and> cRank = dRank - 1))"

definition canPlaceOnFoundation :: "NertsFoundationPile \<Rightarrow> NertsCard \<Rightarrow> bool" where
  "canPlaceOnFoundation pile c =
     (let cRank = getRankValue (rank c) in
      if length (cards pile) = 0 then cRank = 1
      else (case top_js (cards pile) of
              None \<Rightarrow> False
            | Some t \<Rightarrow>
                if suit t \<noteq> suit c then False
                else (let topRank = getRankValue (rank t) in cRank = topRank + 1)))"

text \<open>
  In \<open>canPlaceOnFoundation\<close> the read of the top card happens only for a non-empty
  pile, so its \<open>None\<close> branch is never taken (lemma \<open>top_js_nonempty\<close> below).
\<close>

section \<open>The reducer\<close>

subsection \<open>Steps shared by several cases\<close>

text \<open>
  \<open>revealTop\<close> is the block "flip new top if needed" that the source repeats in
  \<open>tableau_to_tableau\<close>, \<open>tableau_to_foundation\<close>, \<open>nerts_to_tableau\<close> and
  \<open>nerts_to_foundation\<close>: when the pile is non-empty and its last card is face-down,
  that card is replaced by its face-up copy.
\<close>

definition revealTop :: "NertsCard list \<Rightarrow> NertsCard list" where
  "revealTop pile =
     (if length pile > 0
      then (let tIdx = length pile - 1; topCard = pile ! tIdx in
            if \<not> faceUp topCard then pile[tIdx := makeFaceUp topCard] else pile)
      else pile)"

text \<open>
  \<open>pushFoundation\<close> is \<open>f.cards.push(top); if (f.suit === null) f.suit = top.suit\<close>,
  the same two statements in the three foundation cases.
\<close>

definition pushFoundation :: "NertsFoundationPile \<Rightarrow> NertsCard \<Rightarrow> NertsFoundationPile" where
  "pushFoundation f t =
     (let f1 = f\<lparr>cards := cards f @ [t]\<rparr> in
      if suit_pile f1 = None then f1\<lparr>suit_pile := Some (suit t)\<rparr> else f1)"

text \<open>
  The \<open>for\<close> loop of \<open>stock_draw\<close>: \<open>drawLoop n\<close> runs \<open>n\<close> iterations, each popping the
  last card of the stock and pushing its face-up copy on the waste; \<open>if (!c) break\<close> is
  the \<open>None\<close> branch.
\<close>

fun drawLoop :: "nat \<Rightarrow> NertsPlayerState \<Rightarrow> NertsPlayerState" where
  "drawLoop 0 player = player"
| "drawLoop (Suc n) player =
     (case top_js (stock player) of
        None \<Rightarrow> player
      | Some c \<Rightarrow>
          drawLoop n (player\<lparr>stock := butlast (stock player),
                             waste := waste player @ [makeFaceUp c]\<rparr>))"

subsection \<open>The seven cases of the switch\<close>

text \<open>
  Each case works on \<open>player\<close>, the clone of the acting player, and on
  \<open>foundations'\<close> (the source's local \<open>foundations\<close>), the clone of the shared
  piles; a clone has the same contents as its original. A case
  returns \<open>None\<close> where the source leaves by \<open>return state\<close>, and otherwise
  \<open>Some (player, foundations', scoreDelta, used)\<close>: the values of the four variables
  that \<open>finalize\<close> reads at the call \<open>return finalize()\<close>.
\<close>

type_synonym outcome = "(NertsPlayerState \<times> NertsFoundationPile list \<times> int \<times> bool) option"

definition stock_draw :: "NertsPlayerState \<Rightarrow> NertsFoundationPile list \<Rightarrow> outcome" where
  "stock_draw player foundations' =
     (if length (stock player) > 0
      then (let drawCount = min 3 (length (stock player)) in
            Some (drawLoop drawCount player, foundations', 0 + 0, True))
      else if length (waste player) > 0
      then (let recycled = map (\<lambda>c. c\<lparr>faceUp := False\<rparr>) (rev (waste player)) in
            Some (player\<lparr>stock := recycled, waste := []\<rparr>, foundations', 0, True))
      else Some (player, foundations', 0, False))"

definition waste_to_tableau ::
  "NertsPlayerState \<Rightarrow> NertsFoundationPile list \<Rightarrow> int \<Rightarrow> outcome" where
  "waste_to_tableau player foundations' tableauIndex =
     (case nth_js (tableau player) tableauIndex of
        None \<Rightarrow> None
      | Some dest \<Rightarrow>
          (case top_js (waste player) of
             None \<Rightarrow> None
           | Some t \<Rightarrow>
               if \<not> canPlaceOnTableau (top_js dest) t False then None
               else Some (player\<lparr>waste := butlast (waste player),
                                  tableau := (tableau player)[nat tableauIndex := dest @ [t]]\<rparr>,
                          foundations', 0, True)))"

definition waste_to_foundation ::
  "NertsPlayerState \<Rightarrow> NertsFoundationPile list \<Rightarrow> int \<Rightarrow> outcome" where
  "waste_to_foundation player foundations' foundationIndex =
     (case nth_js foundations' foundationIndex of
        None \<Rightarrow> None
      | Some f \<Rightarrow>
          (case top_js (waste player) of
             None \<Rightarrow> None
           | Some t \<Rightarrow>
               if \<not> canPlaceOnFoundation f t then None
               else Some (player\<lparr>waste := butlast (waste player)\<rparr>,
                          foundations'[nat foundationIndex := pushFoundation f t],
                          0 + 1, True)))"

text \<open>
  In \<open>tableau_to_tableau\<close> the source first stores the shortened source column (and flips
  its new top in that stored array), then stores \<open>toPile.concat(moving)\<close> in the
  destination column, where \<open>toPile\<close> is the array read at the start. The two list
  updates below are these two stores, in this order, also when both indices are equal.
\<close>

definition tableau_to_tableau ::
  "NertsPlayerState \<Rightarrow> NertsFoundationPile list \<Rightarrow> int \<Rightarrow> int \<Rightarrow> string \<Rightarrow> outcome" where
  "tableau_to_tableau player foundations' fromIndex toIndex cardId =
     (case nth_js (tableau player) fromIndex of
        None \<Rightarrow> None
      | Some fromPile \<Rightarrow>
          (case nth_js (tableau player) toIndex of
             None \<Rightarrow> None
           | Some toPile \<Rightarrow>
               (case findIndex (\<lambda>c. id_card c = cardId) fromPile of
                  None \<Rightarrow> None
                | Some idx \<Rightarrow>
                    (let moving = drop idx fromPile in
                     case nth_js moving 0 of
                       None \<Rightarrow> None
                     | Some m \<Rightarrow>
                         if \<not> faceUp m then None
                         else if \<not> canPlaceOnTableau (top_js toPile) m False then None
                         else
                           (let newFrom = revealTop (take idx fromPile);
                                tableau1 = (tableau player)[nat fromIndex := newFrom];
                                tableau2 = tableau1[nat toIndex := toPile @ moving]
                            in Some (player\<lparr>tableau := tableau2\<rparr>, foundations', 0, True))))))"

definition tableau_to_foundation ::
  "NertsPlayerState \<Rightarrow> NertsFoundationPile list \<Rightarrow> int \<Rightarrow> int \<Rightarrow> outcome" where
  "tableau_to_foundation player foundations' fromIndex foundationIndex =
     (case nth_js (tableau player) fromIndex of
        None \<Rightarrow> None
      | Some fromPile \<Rightarrow>
          (case nth_js foundations' foundationIndex of
             None \<Rightarrow> None
           | Some f \<Rightarrow>
               (case top_js fromPile of
                  None \<Rightarrow> None
                | Some t \<Rightarrow>
                    if \<not> faceUp t then None
                    else if \<not> canPlaceOnFoundation f t then None
                    else Some (player\<lparr>tableau :=
                                   (tableau player)[nat fromIndex := revealTop (butlast fromPile)]\<rparr>,
                               foundations'[nat foundationIndex := pushFoundation f t],
                               0 + 1, True))))"

definition nerts_to_tableau ::
  "NertsPlayerState \<Rightarrow> NertsFoundationPile list \<Rightarrow> int \<Rightarrow> outcome" where
  "nerts_to_tableau player foundations' tableauIndex =
     (case nth_js (tableau player) tableauIndex of
        None \<Rightarrow> None
      | Some dest \<Rightarrow>
          (case top_js (nertsPile player) of
             None \<Rightarrow> None
           | Some t \<Rightarrow>
               if \<not> faceUp t then None
               else if \<not> canPlaceOnTableau (top_js dest) t True then None
               else Some (player\<lparr>nertsPile := revealTop (butlast (nertsPile player)),
                                  tableau := (tableau player)[nat tableauIndex := dest @ [t]]\<rparr>,
                          foundations', 0, True)))"

definition nerts_to_foundation ::
  "NertsPlayerState \<Rightarrow> NertsFoundationPile list \<Rightarrow> int \<Rightarrow> outcome" where
  "nerts_to_foundation player foundations' foundationIndex =
     (case nth_js foundations' foundationIndex of
        None \<Rightarrow> None
      | Some f \<Rightarrow>
          (case top_js (nertsPile player) of
             None \<Rightarrow> None
           | Some t \<Rightarrow>
               if \<not> faceUp t then None
               else if \<not> canPlaceOnFoundation f t then None
               else Some (player\<lparr>nertsPile := revealTop (butlast (nertsPile player))\<rparr>,
                          foundations'[nat foundationIndex := pushFoundation f t],
                          0 + 2, True)))"

fun switch_case :: "NertsPlayerState \<Rightarrow> NertsFoundationPile list \<Rightarrow> NertsAction \<Rightarrow> outcome" where
  "switch_case player foundations' (StockDraw p) = stock_draw player foundations'"
| "switch_case player foundations' (WasteToTableau p tableauIndex) =
     waste_to_tableau player foundations' tableauIndex"
| "switch_case player foundations' (WasteToFoundation p foundationIndex) =
     waste_to_foundation player foundations' foundationIndex"
| "switch_case player foundations' (TableauToTableau p fromIndex toIndex cardId) =
     tableau_to_tableau player foundations' fromIndex toIndex cardId"
| "switch_case player foundations' (TableauToFoundation p fromIndex foundationIndex) =
     tableau_to_foundation player foundations' fromIndex foundationIndex"
| "switch_case player foundations' (NertsToTableau p tableauIndex) =
     nerts_to_tableau player foundations' tableauIndex"
| "switch_case player foundations' (NertsToFoundation p foundationIndex) =
     nerts_to_foundation player foundations' foundationIndex"

subsection \<open>finalize and applyNertsAction\<close>

text \<open>
  \<open>finalize\<close> is the closure of the source with its captured variables as arguments:
  \<open>players\<close> is the cloned player list in which the entry \<open>playerIndex\<close> is \<open>player\<close>.
  The addition \<open>player.score += scoreDelta\<close> is integer addition here; the source adds
  doubles, which gives the same sum as long as the score and the sum are integers of
  magnitude at most \<open>2 ^ 53\<close>.
\<close>

definition finalize ::
  "NertsState \<Rightarrow> nat \<Rightarrow> NertsPlayerState \<Rightarrow> NertsFoundationPile list \<Rightarrow> int \<Rightarrow> bool
     \<Rightarrow> NertsState" where
  "finalize state playerIndex player0 foundations' scoreDelta used =
     (if \<not> used then state
      else
        (let player = player0\<lparr>score := score player0 + scoreDelta\<rparr>;
             players' = (players state)[playerIndex := player]
         in if \<not> finished state \<and> length (nertsPile player) = 0
            then state\<lparr>players := players', foundations := foundations',
                       finished := True, winnerId := Some (id_player player)\<rparr>
            else state\<lparr>players := players', foundations := foundations',
                       finished := finished state, winnerId := winnerId state\<rparr>))"

definition applyNertsAction :: "NertsState \<Rightarrow> NertsAction \<Rightarrow> NertsState" where
  "applyNertsAction state action =
     (if finished state then state
      else
        (case findIndex (\<lambda>p. id_player p = playerId action) (players state) of
           None \<Rightarrow> state
         | Some playerIndex \<Rightarrow>
             (case switch_case (players state ! playerIndex) (foundations state) action of
                None \<Rightarrow> state
              | Some (player, foundations', scoreDelta, used) \<Rightarrow>
                  finalize state playerIndex player foundations' scoreDelta used)))"

section \<open>The reducer with its possible failures\<close>

text \<open>
  JavaScript raises a \<open>TypeError\<close> when a property is read from \<open>undefined\<close>. The
  definitions of this section follow the same source lines as the reducer above, but
  every read of a property from an array element (\<open>top.suit\<close>, \<open>topCard.faceUp\<close>,
  \<open>moving[0].faceUp\<close>, \<open>player.tableau[i].push\<close>, \<open>players[playerIndex]\<close> and the like)
  first reads the element with \<open>nth_js\<close> and fails with \<open>TypeError\<close> when there is
  none, whether or not an earlier test of the source excludes that. A result \<open>Inl\<close> is a
  raised error, a result \<open>Inr\<close> is a returned value.
\<close>

datatype jsError = TypeError

definition canPlaceOnFoundationE :: "NertsFoundationPile \<Rightarrow> NertsCard \<Rightarrow> jsError + bool" where
  "canPlaceOnFoundationE pile c =
     (let cRank = getRankValue (rank c) in
      if length (cards pile) = 0 then Inr (cRank = 1)
      else (case nth_js (cards pile) (int (length (cards pile)) - 1) of
              None \<Rightarrow> Inl TypeError
            | Some t \<Rightarrow>
                if suit t \<noteq> suit c then Inr False
                else (let topRank = getRankValue (rank t) in Inr (cRank = topRank + 1))))"

definition revealTopE :: "NertsCard list \<Rightarrow> jsError + NertsCard list" where
  "revealTopE pile =
     (if length pile > 0
      then (let tIdx = length pile - 1 in
            case nth_js pile (int tIdx) of
              None \<Rightarrow> Inl TypeError
            | Some topCard \<Rightarrow>
                if \<not> faceUp topCard then Inr (pile[tIdx := makeFaceUp topCard]) else Inr pile)
      else Inr pile)"

definition stock_drawE ::
  "NertsPlayerState \<Rightarrow> NertsFoundationPile list \<Rightarrow> jsError + outcome" where
  "stock_drawE player foundations' =
     (if length (stock player) > 0
      then (let drawCount = min 3 (length (stock player)) in
            Inr (Some (drawLoop drawCount player, foundations', 0 + 0, True)))
      else if length (waste player) > 0
      then (let recycled = map (\<lambda>c. c\<lparr>faceUp := False\<rparr>) (rev (waste player)) in
            Inr (Some (player\<lparr>stock := recycled, waste := []\<rparr>, foundations', 0, True)))
      else Inr (Some (player, foundations', 0, False)))"

definition waste_to_tableauE ::
  "NertsPlayerState \<Rightarrow> NertsFoundationPile list \<Rightarrow> int \<Rightarrow> jsError + outcome" where
  "waste_to_tableauE player foundations' tableauIndex =
     (case nth_js (tableau player) tableauIndex of
        None \<Rightarrow> Inr None
      | Some dest \<Rightarrow>
          (case top_js (waste player) of
             None \<Rightarrow> Inr None
           | Some t \<Rightarrow>
               if \<not> canPlaceOnTableau (top_js dest) t False then Inr None
               else
                 (let waste' = butlast (waste player) in
                  case nth_js (tableau player) tableauIndex of
                    None \<Rightarrow> Inl TypeError
                  | Some column \<Rightarrow>
                      Inr (Some (player\<lparr>waste := waste',
                                   tableau := (tableau player)[nat tableauIndex := column @ [t]]\<rparr>,
                                 foundations', 0, True)))))"

definition waste_to_foundationE ::
  "NertsPlayerState \<Rightarrow> NertsFoundationPile list \<Rightarrow> int \<Rightarrow> jsError + outcome" where
  "waste_to_foundationE player foundations' foundationIndex =
     (case nth_js foundations' foundationIndex of
        None \<Rightarrow> Inr None
      | Some f \<Rightarrow>
          (case top_js (waste player) of
             None \<Rightarrow> Inr None
           | Some t \<Rightarrow>
               (case canPlaceOnFoundationE f t of
                  Inl e \<Rightarrow> Inl e
                | Inr ok \<Rightarrow>
                    if \<not> ok then Inr None
                    else Inr (Some (player\<lparr>waste := butlast (waste player)\<rparr>,
                                    foundations'[nat foundationIndex := pushFoundation f t],
                                    0 + 1, True)))))"

definition tableau_to_tableauE ::
  "NertsPlayerState \<Rightarrow> NertsFoundationPile list \<Rightarrow> int \<Rightarrow> int \<Rightarrow> string
     \<Rightarrow> jsError + outcome" where
  "tableau_to_tableauE player foundations' fromIndex toIndex cardId =
     (case nth_js (tableau player) fromIndex of
        None \<Rightarrow> Inr None
      | Some fromPile \<Rightarrow>
          (case nth_js (tableau player) toIndex of
             None \<Rightarrow> Inr None
           | Some toPile \<Rightarrow>
               (case findIndex (\<lambda>c. id_card c = cardId) fromPile of
                  None \<Rightarrow> Inr None
                | Some idx \<Rightarrow>
                    (let moving = drop idx fromPile in
                     if length moving = 0 then Inr None
                     else
                       (case nth_js moving 0 of
                          None \<Rightarrow> Inl TypeError
                        | Some m \<Rightarrow>
                            if \<not> faceUp m then Inr None
                            else if \<not> canPlaceOnTableau (top_js toPile) m False then Inr None
                            else
                              (case revealTopE (take idx fromPile) of
                                 Inl e \<Rightarrow> Inl e
                               | Inr newFrom \<Rightarrow>
                                   (let tableau1 = (tableau player)[nat fromIndex := newFrom];
                                        tableau2 = tableau1[nat toIndex := toPile @ moving]
                                    in Inr (Some (player\<lparr>tableau := tableau2\<rparr>,
                                                  foundations', 0, True)))))))))"

definition tableau_to_foundationE ::
  "NertsPlayerState \<Rightarrow> NertsFoundationPile list \<Rightarrow> int \<Rightarrow> int \<Rightarrow> jsError + outcome" where
  "tableau_to_foundationE player foundations' fromIndex foundationIndex =
     (case nth_js (tableau player) fromIndex of
        None \<Rightarrow> Inr None
      | Some fromPile \<Rightarrow>
          (case nth_js foundations' foundationIndex of
             None \<Rightarrow> Inr None
           | Some f \<Rightarrow>
               (case top_js fromPile of
                  None \<Rightarrow> Inr None
                | Some t \<Rightarrow>
                    if \<not> faceUp t then Inr None
                    else
                      (case canPlaceOnFoundationE f t of
                         Inl e \<Rightarrow> Inl e
                       | Inr ok \<Rightarrow>
                           if \<not> ok then Inr None
                           else
                             (case revealTopE (butlast fromPile) of
                                Inl e \<Rightarrow> Inl e
                              | Inr fromPile' \<Rightarrow>
                                  Inr (Some (player\<lparr>tableau :=
                                               (tableau player)[nat fromIndex := fromPile']\<rparr>,
                                             foundations'[nat foundationIndex :=
                                               pushFoundation f t],
                                             0 + 1, True)))))))"

definition nerts_to_tableauE ::
  "NertsPlayerState \<Rightarrow> NertsFoundationPile list \<Rightarrow> int \<Rightarrow> jsError + outcome" where
  "nerts_to_tableauE player foundations' tableauIndex =
     (case nth_js (tableau player) tableauIndex of
        None \<Rightarrow> Inr None
      | Some dest \<Rightarrow>
          (case top_js (nertsPile player) of
             None \<Rightarrow> Inr None
           | Some t \<Rightarrow>
               if \<not> faceUp t then Inr None
               else if \<not> canPlaceOnTableau (top_js dest) t True then Inr None
               else
                 (case revealTopE (butlast (nertsPile player)) of
                    Inl e \<Rightarrow> Inl e
                  | Inr nertsPile' \<Rightarrow>
                      Inr (Some (player\<lparr>nertsPile := nertsPile',
                                   tableau := (tableau player)[nat tableauIndex := dest @ [t]]\<rparr>,
                                 foundations', 0, True)))))"

definition nerts_to_foundationE ::
  "NertsPlayerState \<Rightarrow> NertsFoundationPile list \<Rightarrow> int \<Rightarrow> jsError + outcome" where
  "nerts_to_foundationE player foundations' foundationIndex =
     (case nth_js foundations' foundationIndex of
        None \<Rightarrow> Inr None
      | Some f \<Rightarrow>
          (case top_js (nertsPile player) of
             None \<Rightarrow> Inr None
           | Some t \<Rightarrow>
               if \<not> faceUp t then Inr None
               else
                 (case canPlaceOnFoundationE f t of
                    Inl e \<Rightarrow> Inl e
                  | Inr ok \<Rightarrow>
                      if \<not> ok then Inr None
                      else
                        (case revealTopE (butlast (nertsPile player)) of
                           Inl e \<Rightarrow> Inl e
                         | Inr nertsPile' \<Rightarrow>
                             Inr (Some (player\<lparr>nertsPile := nertsPile'\<rparr>,
                                        foundations'[nat foundationIndex := pushFoundation f t],
                                        0 + 2, True))))))"

fun switch_caseE ::
  "NertsPlayerState \<Rightarrow> NertsFoundationPile list \<Rightarrow> NertsAction \<Rightarrow> jsError + outcome" where
  "switch_caseE player foundations' (StockDraw p) = stock_drawE player foundations'"
| "switch_caseE player foundations' (WasteToTableau p tableauIndex) =
     waste_to_tableauE player foundations' tableauIndex"
| "switch_caseE player foundations' (WasteToFoundation p foundationIndex) =
     waste_to_foundationE player foundations' foundationIndex"
| "switch_caseE player foundations' (TableauToTableau p fromIndex toIndex cardId) =
     tableau_to_tableauE player foundations' fromIndex toIndex cardId"
| "switch_caseE player foundations' (TableauToFoundation p fromIndex foundationIndex) =
     tableau_to_foundationE player foundations' fromIndex foundationIndex"
| "switch_caseE player foundations' (NertsToTableau p tableauIndex) =
     nerts_to_tableauE player foundations' tableauIndex"
| "switch_caseE player foundations' (NertsToFoundation p foundationIndex) =
     nerts_to_foundationE player foundations' foundationIndex"

definition applyNertsActionE :: "NertsState \<Rightarrow> NertsAction \<Rightarrow> jsError + NertsState" where
  "applyNertsActionE state action =
     (if finished state then Inr state
      else
        (case findIndex (\<lambda>p. id_player p = playerId action) (players state) of
           None \<Rightarrow> Inr state
         | Some playerIndex \<Rightarrow>
             (case nth_js (players state) (int playerIndex) of
                None \<Rightarrow> Inl TypeError
              | Some player \<Rightarrow>
                  (case switch_caseE player (foundations state) action of
                     Inl e \<Rightarrow> Inl e
                   | Inr None \<Rightarrow> Inr state
                   | Inr (Some (player', foundations', scoreDelta, used)) \<Rightarrow>
                       Inr (finalize state playerIndex player' foundations' scoreDelta used)))))"

section \<open>Initialisation\<close>

text \<open>
  The card id is the template string \<open>playerId-rank suit-idx\<close>. A \<open>string\<close> is a list
  of bytes, so each suit symbol is written as the three bytes of its UTF-8 encoding, and
  \<open>decimal\<close> prints the index as JavaScript prints a non-negative integer.
\<close>

definition rankString :: "Rank \<Rightarrow> string" where
  "rankString r = (case r of
      RA \<Rightarrow> ''A'' | R2 \<Rightarrow> ''2'' | R3 \<Rightarrow> ''3'' | R4 \<Rightarrow> ''4'' | R5 \<Rightarrow> ''5'' | R6 \<Rightarrow> ''6''
    | R7 \<Rightarrow> ''7'' | R8 \<Rightarrow> ''8'' | R9 \<Rightarrow> ''9'' | R10 \<Rightarrow> ''10'' | RJ \<Rightarrow> ''J'' | RQ \<Rightarrow> ''Q''
    | RK \<Rightarrow> ''K'')"

definition suitString :: "Suit \<Rightarrow> string" where
  "suitString s = (case s of
      Spades \<Rightarrow> [CHR 0xE2, CHR 0x99, CHR 0xA0]
    | Hearts \<Rightarrow> [CHR 0xE2, CHR 0x99, CHR 0xA5]
    | Diamonds \<Rightarrow> [CHR 0xE2, CHR 0x99, CHR 0xA6]
    | Clubs \<Rightarrow> [CHR 0xE2, CHR 0x99, CHR 0xA3])"

definition digit :: "nat \<Rightarrow> char" where
  "digit d = char_of (48 + d)"

fun decimal :: "nat \<Rightarrow> string" where
  "decimal n = (if n < 10 then [digit n] else decimal (n div 10) @ [digit (n mod 10)])"

text \<open>
  \<open>dealPlayer\<close> is the function mapped over \<open>config.playerIds\<close>; \<open>js\<close> holds the random
  draws of this player's \<open>shuffle\<close>. The reads \<open>all[13] .. all[16]\<close> are in range because
  the deck has 52 cards (lemma \<open>length_dealt\<close> below).
\<close>

definition dealPlayer :: "(nat \<Rightarrow> nat) \<Rightarrow> PlayerId \<Rightarrow> NertsPlayerState" where
  "dealPlayer js pid =
     (let baseDeck = shuffle js createDeck;
          all = map (\<lambda>(idx, c).
                  \<lparr>suit = suit c, rank = rank c,
                   id_card = pid @ ''-'' @ rankString (rank c) @ suitString (suit c)
                             @ ''-'' @ decimal idx,
                   ownerId = pid, faceUp = False\<rparr>) (enumerate 0 baseDeck);
          rawNerts = take 13 all;
          nertsPile' = map (\<lambda>(i, c). if i = length rawNerts - 1 then makeFaceUp c else c)
                          (enumerate 0 rawNerts);
          t0 = makeFaceUp (all ! 13);
          t1 = makeFaceUp (all ! 14);
          t2 = makeFaceUp (all ! 15);
          t3 = makeFaceUp (all ! 16);
          tableau' = [[t0], [t1], [t2], [t3]];
          stock' = drop 17 all
      in \<lparr>id_player = pid, nertsPile = nertsPile', tableau = tableau', stock = stock',
          waste = [], score = 0\<rparr>)"

text \<open>
  \<open>initNerts\<close>: \<open>rnd k\<close> holds the random draws of the shuffle of the player at position
  \<open>k\<close>, and \<open>now\<close> is the value of \<open>Date.now()\<close>.
\<close>

definition initNerts :: "NertsConfig \<Rightarrow> (nat \<Rightarrow> nat \<Rightarrow> nat) \<Rightarrow> int \<Rightarrow> NertsState" where
  "initNerts config rnd now =
     \<lparr>players = map (\<lambda>(k, pid). dealPlayer (rnd k) pid) (enumerate 0 (playerIds config)),
      foundations = replicate (length (playerIds config) * 4) \<lparr>suit_pile = None, cards = []\<rparr>,
      startedAt = now, finished = False, winnerId = None\<rparr>"

section \<open>Bot logic\<close>


definition nullish :: "'a option \<Rightarrow> 'a option \<Rightarrow> 'a option" where
  "nullish a b = (case a of Some x \<Rightarrow> Some x | None \<Rightarrow> b)"









section \<open>Notions used to state the properties\<close>

subsection \<open>Action sequences and accepted actions\<close>

text \<open>\<open>run state actions\<close> applies the actions one after the other, from the left.\<close>

definition run :: "NertsState \<Rightarrow> NertsAction list \<Rightarrow> NertsState" where
  "run state actions = foldl applyNertsAction state actions"

text \<open>
  \<open>actingIndex\<close> is the source's \<open>playerIndex\<close>. An action is accepted when control
  reaches \<open>finalize\<close> with \<open>used\<close> true, so that a new state object is built.
\<close>

definition actingIndex :: "NertsState \<Rightarrow> NertsAction \<Rightarrow> nat option" where
  "actingIndex state action = findIndex (\<lambda>p. id_player p = playerId action) (players state)"

definition accepted :: "NertsState \<Rightarrow> NertsAction \<Rightarrow> bool" where
  "accepted state action =
     (if finished state then False
      else (case actingIndex state action of
              None \<Rightarrow> False
            | Some playerIndex \<Rightarrow>
                (case switch_case (players state ! playerIndex) (foundations state) action of
                   None \<Rightarrow> False
                 | Some (player, foundations', scoreDelta, used) \<Rightarrow> used)))"

subsection \<open>Card counts\<close>

definition playerCards :: "NertsPlayerState \<Rightarrow> nat" where
  "playerCards p =
     length (nertsPile p) + sum_list (map length (tableau p)) + length (stock p) + length (waste p)"

definition foundationCards :: "NertsFoundationPile list \<Rightarrow> nat" where
  "foundationCards fs = sum_list (map (\<lambda>f. length (cards f)) fs)"

definition totalCards :: "NertsState \<Rightarrow> nat" where
  "totalCards state =
     sum_list (map playerCards (players state)) + foundationCards (foundations state)"

text \<open>
  The bag of cards of a state: every card of every container, with multiplicity and
  irrespective of the side it shows (\<open>blank\<close> turns a card face-down). A card that was
  duplicated or dropped would change this bag.
\<close>

definition blank :: "NertsCard \<Rightarrow> NertsCard" where
  "blank c = c\<lparr>faceUp := False\<rparr>"

definition pileBag :: "NertsCard list \<Rightarrow> NertsCard multiset" where
  "pileBag pile = mset (map blank pile)"

definition playerBag :: "NertsPlayerState \<Rightarrow> NertsCard multiset" where
  "playerBag p =
     pileBag (nertsPile p) + sum_list (map pileBag (tableau p)) + pileBag (stock p)
       + pileBag (waste p)"

definition foundationBag :: "NertsFoundationPile list \<Rightarrow> NertsCard multiset" where
  "foundationBag fs = sum_list (map (\<lambda>f. pileBag (cards f)) fs)"

definition stateBag :: "NertsState \<Rightarrow> NertsCard multiset" where
  "stateBag state = sum_list (map playerBag (players state)) + foundationBag (foundations state)"

subsection \<open>Shapes of piles\<close>

text \<open>
  A column is descending when each card's rank value is one less than that of the card
  beneath it. A column is face-up closed when no face-down card lies above a face-up one.
  A foundation slot is an ascending run when its cards have the rank values
  \<open>1, 2, ..., n\<close>, all of the slot's suit, and the suit is unset exactly when the slot is
  empty.
\<close>

definition descending :: "NertsCard list \<Rightarrow> bool" where
  "descending column =
     successively (\<lambda>a b. getRankValue (rank b) = getRankValue (rank a) - 1) column"

definition descendingTableaus :: "NertsState \<Rightarrow> bool" where
  "descendingTableaus state =
     list_all (\<lambda>p. list_all descending (tableau p)) (players state)"

definition faceUpClosed :: "NertsCard list \<Rightarrow> bool" where
  "faceUpClosed column = successively (\<lambda>a b. faceUp a \<longrightarrow> faceUp b) column"

definition ascendingRun :: "NertsFoundationPile \<Rightarrow> bool" where
  "ascendingRun f =
     (map (\<lambda>c. getRankValue (rank c)) (cards f) = map int [1 ..< Suc (length (cards f))]
      \<and> (case suit_pile f of
           None \<Rightarrow> cards f = []
         | Some s \<Rightarrow> cards f \<noteq> [] \<and> list_all (\<lambda>c. suit c = s) (cards f)))"

text \<open>
  \<open>movedRun\<close> is the source's \<open>moving\<close> of \<open>tableau_to_tableau\<close>: the named card and all
  cards above it in the source column (empty when the column or the card does not exist).
  \<open>faceUpPiles\<close> says that every tableau card and every waste card of a player is
  face-up.
\<close>

definition movedRun :: "NertsPlayerState \<Rightarrow> int \<Rightarrow> string \<Rightarrow> NertsCard list" where
  "movedRun p fromIndex cardId =
     (case nth_js (tableau p) fromIndex of
        None \<Rightarrow> []
      | Some fromPile \<Rightarrow>
          (case findIndex (\<lambda>c. id_card c = cardId) fromPile of
             None \<Rightarrow> []
           | Some idx \<Rightarrow> drop idx fromPile))"

definition faceUpPiles :: "NertsPlayerState \<Rightarrow> bool" where
  "faceUpPiles p = (list_all (list_all faceUp) (tableau p) \<and> list_all faceUp (waste p))"

subsection \<open>Placement rules\<close>

text \<open>
  Tableau, general case: an empty column takes only a King; a non-empty column takes a
  card whose colour differs from that of the column's top and whose rank is exactly one
  less. Tableau, from the Nerts pile: an empty column takes any rank, a non-empty one
  follows the general rule.
\<close>

definition placeableOnTableau :: "NertsCard list \<Rightarrow> NertsCard \<Rightarrow> bool" where
  "placeableOnTableau column c =
     (if column = [] then rank c = RK
      else isRedSuit (suit c) \<noteq> isRedSuit (suit (last column))
           \<and> getRankValue (rank c) = getRankValue (rank (last column)) - 1)"

definition placeableFromNerts :: "NertsCard list \<Rightarrow> NertsCard \<Rightarrow> bool" where
  "placeableFromNerts column c = (if column = [] then True else placeableOnTableau column c)"

text \<open>
  \<open>placeableOnFoundation\<close> is the test of \<open>canPlaceOnFoundation\<close> with the read of the
  top card written as \<open>last\<close>: the card's suit is compared with the suit of the slot's
  top card, as the source does (\<open>top.suit !== card.suit\<close>). \<open>foundationRule\<close> is the
  rule in the specification's words: an empty slot takes only an Ace; a non-empty slot
  takes only the same suit as the slot, that is the suit recorded in the slot's \<open>suit\<close>
  field, and the rank of its current top plus one.
\<close>

definition placeableOnFoundation :: "NertsFoundationPile \<Rightarrow> NertsCard \<Rightarrow> bool" where
  "placeableOnFoundation slot c =
     (if cards slot = [] then rank c = RA
      else suit c = suit (last (cards slot))
           \<and> getRankValue (rank c) = getRankValue (rank (last (cards slot))) + 1)"

definition foundationRule :: "NertsFoundationPile \<Rightarrow> NertsCard \<Rightarrow> bool" where
  "foundationRule slot c =
     (if cards slot = [] then rank c = RA
      else suit_pile slot = Some (suit c)
           \<and> getRankValue (rank c) = getRankValue (rank (last (cards slot))) + 1)"

text \<open>
  What one action may do to a foundation slot: nothing, or one push of a card that the
  foundation rule admits (the pushed card is then the last card of the new slot).
\<close>

definition slotStep :: "NertsFoundationPile \<Rightarrow> NertsFoundationPile \<Rightarrow> bool" where
  "slotStep f f' \<longleftrightarrow>
     f' = f \<or>
     (cards f' \<noteq> [] \<and> placeableOnFoundation f (last (cards f')) \<and>
      f' = pushFoundation f (last (cards f')))"

subsection \<open>The guards of the reducer in closed form\<close>

text \<open>
  \<open>guardsOfCase\<close> collects, case by case, the tests that the source makes before it sets
  \<open>used\<close>; it is read off the code, not off the specification. \<open>guardsHold\<close> adds the
  two tests made before the switch.
\<close>

fun guardsOfCase ::
  "NertsPlayerState \<Rightarrow> NertsFoundationPile list \<Rightarrow> NertsAction \<Rightarrow> bool" where
  "guardsOfCase p fs (StockDraw pid) =
     (stock p \<noteq> [] \<or> (stock p = [] \<and> waste p \<noteq> []))"
| "guardsOfCase p fs (WasteToTableau pid tableauIndex) =
     (waste p \<noteq> [] \<and>
      (case nth_js (tableau p) tableauIndex of
         None \<Rightarrow> False
       | Some column \<Rightarrow> placeableOnTableau column (last (waste p))))"
| "guardsOfCase p fs (WasteToFoundation pid foundationIndex) =
     (waste p \<noteq> [] \<and>
      (case nth_js fs foundationIndex of
         None \<Rightarrow> False
       | Some slot \<Rightarrow> placeableOnFoundation slot (last (waste p))))"
| "guardsOfCase p fs (TableauToTableau pid fromIndex toIndex cardId) =
     (case nth_js (tableau p) fromIndex of
        None \<Rightarrow> False
      | Some source \<Rightarrow>
          (case nth_js (tableau p) toIndex of
             None \<Rightarrow> False
           | Some destination \<Rightarrow>
               list_ex (\<lambda>c. id_card c = cardId \<and> faceUp c \<and> placeableOnTableau destination c)
                 source))"
| "guardsOfCase p fs (TableauToFoundation pid fromIndex foundationIndex) =
     (case nth_js (tableau p) fromIndex of
        None \<Rightarrow> False
      | Some source \<Rightarrow>
          (case nth_js fs foundationIndex of
             None \<Rightarrow> False
           | Some slot \<Rightarrow>
               source \<noteq> [] \<and> faceUp (last source) \<and> placeableOnFoundation slot (last source)))"
| "guardsOfCase p fs (NertsToTableau pid tableauIndex) =
     (nertsPile p \<noteq> [] \<and> faceUp (last (nertsPile p)) \<and>
      (case nth_js (tableau p) tableauIndex of
         None \<Rightarrow> False
       | Some column \<Rightarrow> placeableFromNerts column (last (nertsPile p))))"
| "guardsOfCase p fs (NertsToFoundation pid foundationIndex) =
     (nertsPile p \<noteq> [] \<and> faceUp (last (nertsPile p)) \<and>
      (case nth_js fs foundationIndex of
         None \<Rightarrow> False
       | Some slot \<Rightarrow> placeableOnFoundation slot (last (nertsPile p))))"

definition guardsHold :: "NertsState \<Rightarrow> NertsAction \<Rightarrow> bool" where
  "guardsHold state action =
     (\<not> finished state \<and>
      (case find_js (\<lambda>p. id_player p = playerId action) (players state) of
         None \<Rightarrow> False
       | Some p \<Rightarrow> guardsOfCase p (foundations state) action))"

subsection \<open>The preconditions of the action table, in the specification's words\<close>

text \<open>
  The column "Precondition" of the action table, row by row, for the acting player \<open>p\<close>
  and the shared slots \<open>fs\<close>, together with the rule on facing of the placement rules: a
  card is only legal to move if it is face-up, and every card of a moved tableau run has
  to be face-up. A named column or slot has to exist. In the row of
  \<open>tableau_to_tableau\<close> the named card is a card of the source column with the given
  id; the run is that card and all cards above it.
\<close>

fun actionPrecondition ::
  "NertsPlayerState \<Rightarrow> NertsFoundationPile list \<Rightarrow> NertsAction \<Rightarrow> bool" where
  "actionPrecondition p fs (StockDraw pid) =
     (stock p \<noteq> [] \<or> (stock p = [] \<and> waste p \<noteq> []))"
| "actionPrecondition p fs (WasteToTableau pid tableauIndex) =
     (waste p \<noteq> [] \<and> faceUp (last (waste p)) \<and>
      (case nth_js (tableau p) tableauIndex of
         None \<Rightarrow> False
       | Some column \<Rightarrow> placeableOnTableau column (last (waste p))))"
| "actionPrecondition p fs (WasteToFoundation pid foundationIndex) =
     (waste p \<noteq> [] \<and> faceUp (last (waste p)) \<and>
      (case nth_js fs foundationIndex of
         None \<Rightarrow> False
       | Some slot \<Rightarrow> foundationRule slot (last (waste p))))"
| "actionPrecondition p fs (TableauToTableau pid fromIndex toIndex cardId) =
     (case nth_js (tableau p) fromIndex of
        None \<Rightarrow> False
      | Some source \<Rightarrow>
          (case nth_js (tableau p) toIndex of
             None \<Rightarrow> False
           | Some destination \<Rightarrow>
               list_ex (\<lambda>idx. id_card (source ! idx) = cardId \<and>
                              list_all faceUp (drop idx source) \<and>
                              placeableOnTableau destination (source ! idx))
                 [0 ..< length source]))"
| "actionPrecondition p fs (TableauToFoundation pid fromIndex foundationIndex) =
     (case nth_js (tableau p) fromIndex of
        None \<Rightarrow> False
      | Some source \<Rightarrow>
          (case nth_js fs foundationIndex of
             None \<Rightarrow> False
           | Some slot \<Rightarrow>
               source \<noteq> [] \<and> faceUp (last source) \<and> foundationRule slot (last source)))"
| "actionPrecondition p fs (NertsToTableau pid tableauIndex) =
     (nertsPile p \<noteq> [] \<and> faceUp (last (nertsPile p)) \<and>
      (case nth_js (tableau p) tableauIndex of
         None \<Rightarrow> False
       | Some column \<Rightarrow> placeableFromNerts column (last (nertsPile p))))"
| "actionPrecondition p fs (NertsToFoundation pid foundationIndex) =
     (nertsPile p \<noteq> [] \<and> faceUp (last (nertsPile p)) \<and>
      (case nth_js fs foundationIndex of
         None \<Rightarrow> False
       | Some slot \<Rightarrow> foundationRule slot (last (nertsPile p))))"

text \<open>
  The precondition of an action on a state: the game is in progress, the player id
  resolves, and the row of the table holds for that player.
\<close>

definition precondition :: "NertsState \<Rightarrow> NertsAction \<Rightarrow> bool" where
  "precondition state action =
     (\<not> finished state \<and>
      (case find_js (\<lambda>p. id_player p = playerId action) (players state) of
         None \<Rightarrow> False
       | Some p \<Rightarrow> actionPrecondition p (foundations state) action))"

text \<open>
  \<open>addressable\<close>: the game is in progress, the player id resolves, and every column and
  slot that the action names exists.
\<close>

fun indicesInRange ::
  "NertsPlayerState \<Rightarrow> NertsFoundationPile list \<Rightarrow> NertsAction \<Rightarrow> bool" where
  "indicesInRange p fs (StockDraw pid) = True"
| "indicesInRange p fs (WasteToTableau pid tableauIndex) =
     (nth_js (tableau p) tableauIndex \<noteq> None)"
| "indicesInRange p fs (WasteToFoundation pid foundationIndex) =
     (nth_js fs foundationIndex \<noteq> None)"
| "indicesInRange p fs (TableauToTableau pid fromIndex toIndex cardId) =
     (nth_js (tableau p) fromIndex \<noteq> None \<and> nth_js (tableau p) toIndex \<noteq> None)"
| "indicesInRange p fs (TableauToFoundation pid fromIndex foundationIndex) =
     (nth_js (tableau p) fromIndex \<noteq> None \<and> nth_js fs foundationIndex \<noteq> None)"
| "indicesInRange p fs (NertsToTableau pid tableauIndex) =
     (nth_js (tableau p) tableauIndex \<noteq> None)"
| "indicesInRange p fs (NertsToFoundation pid foundationIndex) =
     (nth_js fs foundationIndex \<noteq> None)"

definition addressable :: "NertsState \<Rightarrow> NertsAction \<Rightarrow> bool" where
  "addressable state action =
     (\<not> finished state \<and>
      (case find_js (\<lambda>p. id_player p = playerId action) (players state) of
         None \<Rightarrow> False
       | Some p \<Rightarrow> indicesInRange p (foundations state) action))"

text \<open>
  A state is orderly when its piles are as the data model describes them where the
  reducer relies on it: the top of every waste is face-up, no face-down card of a tableau
  column lies above a face-up one, and every non-empty foundation slot records the suit of
  its top card.
\<close>

definition orderly :: "NertsState \<Rightarrow> bool" where
  "orderly state =
     (list_all (\<lambda>p. list_all faceUpClosed (tableau p) \<and>
                    (waste p = [] \<or> faceUp (last (waste p)))) (players state) \<and>
      list_all (\<lambda>f. cards f = [] \<or> suit_pile f = Some (suit (last (cards f))))
        (foundations state))"

text \<open>
  Scores. A score of the source is a JavaScript number, a double; the model's score is an
  integer. Addition of doubles is integer addition as long as both operands and the sum
  are integers of magnitude at most \<open>2 ^ 53\<close>: \<open>exactScore\<close> is that range.
\<close>

definition exactScore :: "int \<Rightarrow> bool" where
  "exactScore x = (- (2 ^ 53) \<le> x \<and> x \<le> 2 ^ 53)"

text \<open>The score column of the action table.\<close>

fun scoreOf :: "NertsAction \<Rightarrow> int" where
  "scoreOf (StockDraw pid) = 0"
| "scoreOf (WasteToTableau pid tableauIndex) = 0"
| "scoreOf (WasteToFoundation pid foundationIndex) = 1"
| "scoreOf (TableauToTableau pid fromIndex toIndex cardId) = 0"
| "scoreOf (TableauToFoundation pid fromIndex foundationIndex) = 1"
| "scoreOf (NertsToTableau pid tableauIndex) = 0"
| "scoreOf (NertsToFoundation pid foundationIndex) = 2"

subsection \<open>The moves of the bot's priority list, in the specification's words\<close>





definition runExposesCard :: "NertsPlayerState \<Rightarrow> nat \<Rightarrow> nat \<Rightarrow> nat \<Rightarrow> bool" where
  "runExposesCard p from idx to =
     (from < length (tableau p) \<and> to < length (tableau p) \<and> to \<noteq> from \<and>
      idx < length (tableau p ! from) \<and> 0 < idx \<and>
      faceUp (tableau p ! from ! idx) \<and> \<not> faceUp (tableau p ! from ! (idx - 1)) \<and>
      placeableOnTableau (tableau p ! to) (tableau p ! from ! idx))"



subsection \<open>Example positions\<close>

text \<open>
  Small positions on which the theorems below are instantiated. \<open>examplePosition\<close>
  has one player \<open>p1\<close> with the given Nerts pile and tableau, a stock of four face-down
  cards, the Jack of spades on the waste, and four empty foundation slots.
\<close>

definition exampleCard :: "Suit \<Rightarrow> Rank \<Rightarrow> string \<Rightarrow> bool \<Rightarrow> NertsCard" where
  "exampleCard s r i up = \<lparr>suit = s, rank = r, id_card = i, ownerId = ''p1'', faceUp = up\<rparr>"

definition examplePosition :: "NertsCard list \<Rightarrow> NertsCard list list \<Rightarrow> NertsState" where
  "examplePosition pile columns =
     \<lparr>players =
        [\<lparr>id_player = ''p1'', nertsPile = pile, tableau = columns,
          stock = [exampleCard Clubs R9 ''s0'' False, exampleCard Diamonds R3 ''s1'' False,
                   exampleCard Spades R8 ''s2'' False, exampleCard Hearts R2 ''s3'' False],
          waste = [exampleCard Spades RJ ''w0'' True], score = 0\<rparr>],
      foundations = replicate 4 \<lparr>suit_pile = None, cards = []\<rparr>,
      startedAt = 0, finished = False, winnerId = None\<rparr>"

definition exampleMidgame :: NertsState where
  "exampleMidgame =
     examplePosition
       [exampleCard Clubs R5 ''n0'' False, exampleCard Spades RA ''n1'' True]
       [[exampleCard Hearts RQ ''t0'' True], [exampleCard Spades RK ''t1'' True], [],
        [exampleCard Diamonds R7 ''t3'' True]]"

text \<open>
  \<open>exampleCovered\<close> has a face-down Jack lying on a face-up Queen in column 0, a
  position that no deal followed by actions produces but that the type admits.
\<close>

definition exampleCovered :: NertsState where
  "exampleCovered =
     examplePosition [exampleCard Clubs R5 ''n0'' True]
       [[exampleCard Hearts RQ ''q'' True, exampleCard Spades RJ ''j'' False],
        [exampleCard Spades RK ''k'' True]]"

text \<open>\<open>exampleDuel\<close> adds a second player \<open>p2\<close> to \<open>exampleMidgame\<close>.\<close>

definition exampleDuel :: NertsState where
  "exampleDuel =
     exampleMidgame\<lparr>players := players exampleMidgame @
        [\<lparr>id_player = ''p2'', nertsPile = [exampleCard Diamonds RK ''m0'' True],
          tableau = [[], [], [], []], stock = [], waste = [], score = 5\<rparr>]\<rparr>"

text \<open>
  \<open>exampleDeal\<close> is the deal for one player \<open>a\<close> in which every swap of the shuffle
  draws \<open>j = i\<close>, so that the deck stays in the order of \<open>createDeck\<close>: the Nerts pile is
  the spades with the King on top, the tableau columns hold the Ace to the Four of
  hearts. \<open>exampleQuickDeal\<close> draws \<open>j = 12 - i\<close> for \<open>i\<close> from 12 down to 7, which
  reverses the first thirteen cards: the Nerts pile is the spades with the Ace on top.
\<close>

definition exampleDeal :: NertsState where
  "exampleDeal = initNerts \<lparr>playerIds = [''a'']\<rparr> (\<lambda>k i. i) 0"

definition exampleQuickDeal :: NertsState where
  "exampleQuickDeal =
     initNerts \<lparr>playerIds = [''a'']\<rparr> (\<lambda>k i. if 7 \<le> i \<and> i \<le> 12 then 12 - i else i) 0"

text \<open>
  \<open>exampleTwelveMoves\<close> is \<open>exampleQuickDeal\<close> after twelve moves from the Nerts pile to
  foundation slot 0: the pile holds its last card, the King of spades.
\<close>

definition exampleTwelveMoves :: NertsState where
  "exampleTwelveMoves = run exampleQuickDeal (replicate 12 (NertsToFoundation ''a'' 0))"

text \<open>
  \<open>exampleAscending\<close> has a King lying on a Queen in column 0: a column that is not
  descending, which no deal followed by actions produces.
\<close>

definition exampleAscending :: NertsState where
  "exampleAscending =
     examplePosition [exampleCard Clubs R5 ''n0'' True]
       [[exampleCard Hearts RQ ''q'' True, exampleCard Spades RK ''k'' True]]"

text \<open>
  \<open>exampleMisfiled\<close> has a foundation slot that records spades but holds the Ace of
  hearts, and the Two of hearts on the waste. \<open>exampleHiddenWaste\<close> has a face-down Queen
  of hearts as the top of the waste and the King of spades in column 0. Neither position
  is produced by a deal followed by actions; the type admits both.
\<close>

definition exampleMisfiled :: NertsState where
  "exampleMisfiled =
     \<lparr>players =
        [\<lparr>id_player = ''p1'', nertsPile = [exampleCard Clubs R5 ''n0'' True],
          tableau = [[], [], [], []], stock = [],
          waste = [exampleCard Hearts R2 ''w0'' True], score = 0\<rparr>],
      foundations =
        [\<lparr>suit_pile = Some Spades, cards = [exampleCard Hearts RA ''f0'' True]\<rparr>],
      startedAt = 0, finished = False, winnerId = None\<rparr>"

definition exampleHiddenWaste :: NertsState where
  "exampleHiddenWaste =
     \<lparr>players =
        [\<lparr>id_player = ''p1'', nertsPile = [exampleCard Clubs R5 ''n0'' True],
          tableau = [[exampleCard Spades RK ''k'' True], [], [], []], stock = [],
          waste = [exampleCard Hearts RQ ''w0'' False], score = 0\<rparr>],
      foundations = replicate 4 \<lparr>suit_pile = None, cards = []\<rparr>,
      startedAt = 0, finished = False, winnerId = None\<rparr>"

section \<open>Basic facts about the helpers\<close>

lemma top_js_eq: "top_js xs = (if xs = [] then None else Some (last xs))"
  by (cases xs rule: rev_cases) (auto simp: top_js_def nth_js_def nth_append)

lemma top_js_nonempty: "length xs \<noteq> 0 \<Longrightarrow> top_js xs = Some (last xs)"
  by (simp add: top_js_eq)

lemma nth_js_Some: "nth_js xs i = Some x \<longleftrightarrow> 0 \<le> i \<and> nat i < length xs \<and> x = xs ! nat i"
  by (auto simp: nth_js_def)

lemma nth_js_nat: "nth_js xs (int n) = (if n < length xs then Some (xs ! n) else None)"
  by (simp add: nth_js_def)

lemma getRankValue_simps:
  "getRankValue RA = 1" "getRankValue R2 = 2" "getRankValue R3 = 3" "getRankValue R4 = 4"
  "getRankValue R5 = 5" "getRankValue R6 = 6" "getRankValue R7 = 7" "getRankValue R8 = 8"
  "getRankValue R9 = 9" "getRankValue R10 = 10" "getRankValue RJ = 11" "getRankValue RQ = 12"
  "getRankValue RK = 13"
  by (simp_all add: getRankValue_def rankOrder_def)

lemma getRankValue_1: "getRankValue r = 1 \<longleftrightarrow> r = RA"
  by (cases r) (simp_all add: getRankValue_simps)

lemma getRankValue_13: "getRankValue r = 13 \<longleftrightarrow> r = RK"
  by (cases r) (simp_all add: getRankValue_simps)

lemma getRankValue_range: "1 \<le> getRankValue r \<and> getRankValue r \<le> 13"
  by (cases r) (simp_all add: getRankValue_simps)

lemma find_js_findIndex: "find_js P xs = map_option (\<lambda>i. xs ! i) (findIndex P xs)"
  by (induction xs) (auto split: option.splits)

lemma findIndex_Some: "findIndex P xs = Some i \<Longrightarrow> i < length xs \<and> P (xs ! i)"
  by (induction xs arbitrary: i) (auto split: if_splits option.splits)

lemma findIndex_first: "findIndex P xs = Some i \<Longrightarrow> j < i \<Longrightarrow> \<not> P (xs ! j)"
  by (induction xs arbitrary: i j) (auto split: if_splits option.splits simp: nth_Cons')

lemma findIndex_None: "findIndex P xs = None \<longleftrightarrow> (\<forall>x\<in>set xs. \<not> P x)"
  by (induction xs) (auto split: option.splits)

lemma canPlaceOnTableau_eq:
  "canPlaceOnTableau (top_js column) c False = placeableOnTableau column c"
  "canPlaceOnTableau (top_js column) c True = placeableFromNerts column c"
  by (auto simp: canPlaceOnTableau_def placeableOnTableau_def placeableFromNerts_def top_js_eq
      getRankValue_13)

lemma canPlaceOnFoundation_eq: "canPlaceOnFoundation f c = placeableOnFoundation f c"
  by (auto simp: canPlaceOnFoundation_def placeableOnFoundation_def top_js_eq getRankValue_1)

lemma length_revealTop [simp]: "length (revealTop xs) = length xs"
  by (simp add: revealTop_def Let_def)

lemma length_shuffle_loop: "length (shuffle_loop js n xs) = length xs"
  by (induction n arbitrary: xs) (auto simp: Let_def)

lemma length_shuffle: "length (shuffle js xs) = length xs"
  by (simp add: shuffle_def length_shuffle_loop)

lemma length_createDeck: "length createDeck = 52"
  by (simp add: createDeck_def suits_def ranks_def)

subsection \<open>The draw loop in closed form\<close>

lemma drawLoop_eq:
  "drawLoop n p =
     (let k = min n (length (stock p)) in
      p\<lparr>stock := take (length (stock p) - k) (stock p),
        waste := waste p @ map makeFaceUp (rev (drop (length (stock p) - k) (stock p)))\<rparr>)"
proof (induction n arbitrary: p)
  case 0
  then show ?case by simp
next
  case (Suc n)
  show ?case
  proof (cases "stock p" rule: rev_cases)
    case Nil
    then show ?thesis by (simp add: top_js_eq)
  next
    case (snoc xs c)
    have le: "length xs - min n (length xs) \<le> length xs" by simp
    show ?thesis
      using snoc le by (simp add: top_js_eq Suc.IH Let_def)
  qed
qed

lemma drawLoop_fields:
  "id_player (drawLoop n p) = id_player p" "nertsPile (drawLoop n p) = nertsPile p"
  "tableau (drawLoop n p) = tableau p" "score (drawLoop n p) = score p"
  by (simp_all add: drawLoop_eq Let_def)

lemma playerCards_drawLoop: "playerCards (drawLoop n p) = playerCards p"
  by (simp add: drawLoop_eq Let_def playerCards_def)

section \<open>What each case of the switch returns\<close>

lemma canPlaceOnTableau_None: "canPlaceOnTableau None c b = (b \<or> rank c = RK)"
  by (auto simp: canPlaceOnTableau_def getRankValue_13)

lemma canPlaceOnTableau_Some:
  "canPlaceOnTableau (Some d) c b =
     (isRedSuit (suit c) \<noteq> isRedSuit (suit d) \<and> getRankValue (rank c) = getRankValue (rank d) - 1)"
  by (auto simp: canPlaceOnTableau_def)

lemmas placeable_simps = canPlaceOnTableau_None canPlaceOnTableau_Some placeableOnTableau_def
  placeableFromNerts_def

lemma stock_draw_Some:
  assumes "stock_draw player fs = Some (p', fs', d, u)"
  shows "fs' = fs \<and> d = 0 \<and>
    (if stock player \<noteq> [] then u \<and> p' = drawLoop (min 3 (length (stock player))) player
     else if waste player \<noteq> []
       then u \<and> p' = player\<lparr>stock := map (\<lambda>c. c\<lparr>faceUp := False\<rparr>) (rev (waste player)), waste := []\<rparr>
     else \<not> u \<and> p' = player)"
  using assms by (auto simp: stock_draw_def Let_def split: if_splits)

lemma waste_to_tableau_Some:
  assumes "waste_to_tableau player fs i = Some (p', fs', d, u)"
  shows "0 \<le> i \<and> nat i < length (tableau player) \<and> waste player \<noteq> [] \<and>
    placeableOnTableau (tableau player ! nat i) (last (waste player)) \<and>
    p' = player\<lparr>waste := butlast (waste player),
               tableau := (tableau player)[nat i := tableau player ! nat i @ [last (waste player)]]\<rparr> \<and>
    fs' = fs \<and> d = 0 \<and> u"
  using assms
  by (auto simp: waste_to_tableau_def nth_js_Some top_js_eq placeable_simps
      split: option.splits if_splits)

lemma waste_to_foundation_Some:
  assumes "waste_to_foundation player fs i = Some (p', fs', d, u)"
  shows "0 \<le> i \<and> nat i < length fs \<and> waste player \<noteq> [] \<and>
    placeableOnFoundation (fs ! nat i) (last (waste player)) \<and>
    p' = player\<lparr>waste := butlast (waste player)\<rparr> \<and>
    fs' = fs[nat i := pushFoundation (fs ! nat i) (last (waste player))] \<and> d = 1 \<and> u"
  using assms
  by (auto simp: waste_to_foundation_def nth_js_Some top_js_eq canPlaceOnFoundation_eq
      split: option.splits if_splits)

lemma tableau_to_tableau_Some:
  assumes "tableau_to_tableau player fs i j cid = Some (p', fs', d, u)"
  shows "\<exists>idx. 0 \<le> i \<and> nat i < length (tableau player) \<and> 0 \<le> j \<and> nat j < length (tableau player) \<and>
    findIndex (\<lambda>c. id_card c = cid) (tableau player ! nat i) = Some idx \<and>
    idx < length (tableau player ! nat i) \<and>
    faceUp (tableau player ! nat i ! idx) \<and>
    placeableOnTableau (tableau player ! nat j) (tableau player ! nat i ! idx) \<and>
    p' = player\<lparr>tableau := (tableau player)
            [nat i := revealTop (take idx (tableau player ! nat i)),
             nat j := tableau player ! nat j @ drop idx (tableau player ! nat i)]\<rparr> \<and>
    fs' = fs \<and> d = 0 \<and> u"
  using assms
  by (auto simp: tableau_to_tableau_def nth_js_Some top_js_eq placeable_simps Let_def
      nth_js_def dest: findIndex_Some
      split: option.splits if_splits)

lemma tableau_to_foundation_Some:
  assumes "tableau_to_foundation player fs i j = Some (p', fs', d, u)"
  shows "0 \<le> i \<and> nat i < length (tableau player) \<and> 0 \<le> j \<and> nat j < length fs \<and>
    tableau player ! nat i \<noteq> [] \<and> faceUp (last (tableau player ! nat i)) \<and>
    placeableOnFoundation (fs ! nat j) (last (tableau player ! nat i)) \<and>
    p' = player\<lparr>tableau := (tableau player)[nat i := revealTop (butlast (tableau player ! nat i))]\<rparr> \<and>
    fs' = fs[nat j := pushFoundation (fs ! nat j) (last (tableau player ! nat i))] \<and> d = 1 \<and> u"
  using assms
  by (auto simp: tableau_to_foundation_def nth_js_Some top_js_eq canPlaceOnFoundation_eq
      split: option.splits if_splits)

lemma nerts_to_tableau_Some:
  assumes "nerts_to_tableau player fs i = Some (p', fs', d, u)"
  shows "0 \<le> i \<and> nat i < length (tableau player) \<and> nertsPile player \<noteq> [] \<and>
    faceUp (last (nertsPile player)) \<and>
    placeableFromNerts (tableau player ! nat i) (last (nertsPile player)) \<and>
    p' = player\<lparr>nertsPile := revealTop (butlast (nertsPile player)),
               tableau := (tableau player)[nat i := tableau player ! nat i @ [last (nertsPile player)]]\<rparr> \<and>
    fs' = fs \<and> d = 0 \<and> u"
  using assms
  by (auto simp: nerts_to_tableau_def nth_js_Some top_js_eq placeable_simps
      split: option.splits if_splits)

lemma nerts_to_foundation_Some:
  assumes "nerts_to_foundation player fs i = Some (p', fs', d, u)"
  shows "0 \<le> i \<and> nat i < length fs \<and> nertsPile player \<noteq> [] \<and>
    faceUp (last (nertsPile player)) \<and>
    placeableOnFoundation (fs ! nat i) (last (nertsPile player)) \<and>
    p' = player\<lparr>nertsPile := revealTop (butlast (nertsPile player))\<rparr> \<and>
    fs' = fs[nat i := pushFoundation (fs ! nat i) (last (nertsPile player))] \<and> d = 2 \<and> u"
  using assms
  by (auto simp: nerts_to_foundation_def nth_js_Some top_js_eq canPlaceOnFoundation_eq
      split: option.splits if_splits)

lemma revealTop_Nil [simp]: "revealTop [] = []"
  by (simp add: revealTop_def)

lemma nth_js_in_range: "0 \<le> i \<Longrightarrow> nat i < length xs \<Longrightarrow> nth_js xs i = Some (xs ! nat i)"
  unfolding nth_js_def by auto

lemma switch_case_split:
  assumes "switch_case player fs a = Some r"
  obtains
    (StockDraw) x where "a = StockDraw x" "stock_draw player fs = Some r"
  | (WasteToTableau) x i where "a = WasteToTableau x i" "waste_to_tableau player fs i = Some r"
  | (WasteToFoundation) x i where "a = WasteToFoundation x i"
      "waste_to_foundation player fs i = Some r"
  | (TableauToTableau) x i j cid where "a = TableauToTableau x i j cid"
      "tableau_to_tableau player fs i j cid = Some r"
  | (TableauToFoundation) x i j where "a = TableauToFoundation x i j"
      "tableau_to_foundation player fs i j = Some r"
  | (NertsToTableau) x i where "a = NertsToTableau x i" "nerts_to_tableau player fs i = Some r"
  | (NertsToFoundation) x i where "a = NertsToFoundation x i"
      "nerts_to_foundation player fs i = Some r"
  using assms by (cases a) simp_all

lemma switch_case_frame:
  assumes "switch_case player fs a = Some (p', fs', d, u)"
  shows "id_player p' = id_player player \<and> score p' = score player \<and>
         length fs' = length fs \<and> length (tableau p') = length (tableau player)"
  using assms
proof (cases rule: switch_case_split)
  case (StockDraw x)
  from stock_draw_Some[OF StockDraw(2)] show ?thesis
    by (simp add: drawLoop_fields split: if_splits)
next
  case (WasteToTableau x i)
  from waste_to_tableau_Some[OF WasteToTableau(2)] show ?thesis by simp
next
  case (WasteToFoundation x i)
  from waste_to_foundation_Some[OF WasteToFoundation(2)] show ?thesis by simp
next
  case (TableauToTableau x i j cid)
  from tableau_to_tableau_Some[OF TableauToTableau(2)] show ?thesis by auto
next
  case (TableauToFoundation x i j)
  from tableau_to_foundation_Some[OF TableauToFoundation(2)] show ?thesis by simp
next
  case (NertsToTableau x i)
  from nerts_to_tableau_Some[OF NertsToTableau(2)] show ?thesis by simp
next
  case (NertsToFoundation x i)
  from nerts_to_foundation_Some[OF NertsToFoundation(2)] show ?thesis by simp
qed

lemma switch_case_score:
  assumes "switch_case player fs a = Some (p', fs', d, u)"
  shows "(u \<longrightarrow> d = scoreOf a) \<and> (\<not> u \<longrightarrow> p' = player \<and> fs' = fs)"
  using assms
proof (cases rule: switch_case_split)
  case (StockDraw x)
  from stock_draw_Some[OF StockDraw(2)] StockDraw(1) show ?thesis
    by (simp split: if_splits)
next
  case (WasteToTableau x i)
  from waste_to_tableau_Some[OF WasteToTableau(2)] WasteToTableau(1) show ?thesis by simp
next
  case (WasteToFoundation x i)
  from waste_to_foundation_Some[OF WasteToFoundation(2)] WasteToFoundation(1) show ?thesis
    by simp
next
  case (TableauToTableau x i j cid)
  from tableau_to_tableau_Some[OF TableauToTableau(2)] TableauToTableau(1) show ?thesis
    by auto
next
  case (TableauToFoundation x i j)
  from tableau_to_foundation_Some[OF TableauToFoundation(2)] TableauToFoundation(1)
  show ?thesis by simp
next
  case (NertsToTableau x i)
  from nerts_to_tableau_Some[OF NertsToTableau(2)] NertsToTableau(1) show ?thesis by simp
next
  case (NertsToFoundation x i)
  from nerts_to_foundation_Some[OF NertsToFoundation(2)] NertsToFoundation(1) show ?thesis
    by simp
qed

lemma switch_case_guards:
  assumes "switch_case player fs a = Some (p', fs', d, True)"
  shows "guardsOfCase player fs a"
  using assms
proof (cases rule: switch_case_split)
  case (StockDraw x)
  have "\<not> (stock player = [] \<and> waste player = [])"
  proof
    assume "stock player = [] \<and> waste player = []"
    with stock_draw_Some[OF StockDraw(2)] show False by simp
  qed
  then show ?thesis using StockDraw(1) by auto
next
  case (WasteToTableau x i)
  from waste_to_tableau_Some[OF WasteToTableau(2)] WasteToTableau(1) show ?thesis
    by (simp add: nth_js_in_range)
next
  case (WasteToFoundation x i)
  from waste_to_foundation_Some[OF WasteToFoundation(2)] WasteToFoundation(1) show ?thesis
    by (simp add: nth_js_in_range)
next
  case (TableauToTableau x i j cid)
  from tableau_to_tableau_Some[OF TableauToTableau(2)]
  obtain idx where h: "0 \<le> i" "nat i < length (tableau player)" "0 \<le> j"
      "nat j < length (tableau player)"
      "findIndex (\<lambda>c. id_card c = cid) (tableau player ! nat i) = Some idx"
      "idx < length (tableau player ! nat i)"
      "faceUp (tableau player ! nat i ! idx)"
      "placeableOnTableau (tableau player ! nat j) (tableau player ! nat i ! idx)"
    by (elim exE conjE) (rule that)
  have "id_card (tableau player ! nat i ! idx) = cid"
    using findIndex_Some[OF h(5)] by simp
  moreover have "tableau player ! nat i ! idx \<in> set (tableau player ! nat i)"
    using h(6) by simp
  ultimately have "list_ex (\<lambda>c. id_card c = cid \<and> faceUp c \<and>
      placeableOnTableau (tableau player ! nat j) c) (tableau player ! nat i)"
    using h(7,8) unfolding list_ex_iff by blast
  then show ?thesis using TableauToTableau(1) h(1-4) by (simp add: nth_js_in_range)
next
  case (TableauToFoundation x i j)
  from tableau_to_foundation_Some[OF TableauToFoundation(2)] TableauToFoundation(1)
  show ?thesis by (simp add: nth_js_in_range)
next
  case (NertsToTableau x i)
  from nerts_to_tableau_Some[OF NertsToTableau(2)] NertsToTableau(1) show ?thesis
    by (simp add: nth_js_in_range)
next
  case (NertsToFoundation x i)
  from nerts_to_foundation_Some[OF NertsToFoundation(2)] NertsToFoundation(1) show ?thesis
    by (simp add: nth_js_in_range)
qed

section \<open>The reducer as a whole\<close>

lemma not_accepted: "\<not> accepted s a \<Longrightarrow> applyNertsAction s a = s"
  by (auto simp: accepted_def applyNertsAction_def actingIndex_def finalize_def
      split: option.splits if_splits)

lemma acceptedE:
  assumes "accepted s a"
  obtains k p' fs' d where
    "\<not> finished s" "actingIndex s a = Some k" "k < length (players s)"
    "id_player (players s ! k) = playerId a"
    "switch_case (players s ! k) (foundations s) a = Some (p', fs', d, True)"
    "applyNertsAction s a =
       s\<lparr>players := (players s)[k := p'\<lparr>score := score p' + d\<rparr>], foundations := fs',
         finished := (nertsPile p' = []),
         winnerId := (if nertsPile p' = [] then Some (id_player p') else winnerId s)\<rparr>"
proof -
  from assms have nf: "\<not> finished s"
    by (simp add: accepted_def split: if_splits)
  from assms nf obtain k where k: "actingIndex s a = Some k"
    by (auto simp: accepted_def split: option.splits)
  from assms nf k obtain p' fs' d where
    sw: "switch_case (players s ! k) (foundations s) a = Some (p', fs', d, True)"
    by (auto simp: accepted_def split: option.splits)
  from k have kk: "k < length (players s)" "id_player (players s ! k) = playerId a"
    using findIndex_Some[of "\<lambda>p. id_player p = playerId a" "players s" k]
    by (simp_all add: actingIndex_def)
  have "applyNertsAction s a = finalize s k p' fs' d True"
    using nf k sw by (simp add: applyNertsAction_def actingIndex_def)
  then have "applyNertsAction s a =
       s\<lparr>players := (players s)[k := p'\<lparr>score := score p' + d\<rparr>], foundations := fs',
         finished := (nertsPile p' = []),
         winnerId := (if nertsPile p' = [] then Some (id_player p') else winnerId s)\<rparr>"
    using nf by (simp add: finalize_def Let_def)
  with nf k kk sw show thesis by (rule that)
qed

lemma accepted_guards: "accepted s a \<Longrightarrow> guardsHold s a"
proof -
  assume "accepted s a"
  then obtain k p' fs' d where h: "\<not> finished s" "actingIndex s a = Some k"
    "switch_case (players s ! k) (foundations s) a = Some (p', fs', d, True)"
    by (rule acceptedE)
  from h(2) have "find_js (\<lambda>p. id_player p = playerId a) (players s) = Some (players s ! k)"
    by (simp add: find_js_findIndex actingIndex_def)
  with h(1) switch_case_guards[OF h(3)] show ?thesis
    by (simp add: guardsHold_def)
qed

lemma finished_is_noop: "finished s \<Longrightarrow> applyNertsAction s a = s"
  by (simp add: applyNertsAction_def)

lemma length_players_apply: "length (players (applyNertsAction s a)) = length (players s)"
proof (cases "accepted s a")
  case True
  then show ?thesis by (rule acceptedE) simp
next
  case False
  then show ?thesis by (simp add: not_accepted)
qed

lemma startedAt_apply: "startedAt (applyNertsAction s a) = startedAt s"
proof (cases "accepted s a")
  case True
  then show ?thesis by (rule acceptedE) simp
next
  case False
  then show ?thesis by (simp add: not_accepted)
qed

lemma other_player_apply:
  assumes "actingIndex s a \<noteq> Some j"
  shows "players (applyNertsAction s a) ! j = players s ! j"
proof (cases "accepted s a")
  case True
  then show ?thesis
  proof (rule acceptedE)
    fix k p' fs' d
    assume "actingIndex s a = Some k" and
      "applyNertsAction s a =
       s\<lparr>players := (players s)[k := p'\<lparr>score := score p' + d\<rparr>], foundations := fs',
         finished := (nertsPile p' = []),
         winnerId := (if nertsPile p' = [] then Some (id_player p') else winnerId s)\<rparr>"
    with assms show ?thesis by auto
  qed
next
  case False
  then show ?thesis by (simp add: not_accepted)
qed

lemma acting_score_apply:
  assumes "accepted s a" "actingIndex s a = Some k"
  shows "score (players (applyNertsAction s a) ! k) = score (players s ! k) + scoreOf a"
  using assms(1)
proof (rule acceptedE)
  fix k' p' fs' d
  assume h: "actingIndex s a = Some k'" "k' < length (players s)"
    "switch_case (players s ! k') (foundations s) a = Some (p', fs', d, True)"
    "applyNertsAction s a =
       s\<lparr>players := (players s)[k' := p'\<lparr>score := score p' + d\<rparr>], foundations := fs',
         finished := (nertsPile p' = []),
         winnerId := (if nertsPile p' = [] then Some (id_player p') else winnerId s)\<rparr>"
  from h(1) assms(2) have [simp]: "k' = k" by simp
  from switch_case_frame[OF h(3)] switch_case_score[OF h(3)] h(2,4)
  show ?thesis by simp
qed

lemma scoreOf_nonneg: "0 \<le> scoreOf a"
  by (cases a) simp_all

lemma score_apply_mono: "score (players s ! j) \<le> score (players (applyNertsAction s a) ! j)"
proof (cases "accepted s a \<and> actingIndex s a = Some j")
  case True
  then show ?thesis using acting_score_apply[of s a j] scoreOf_nonneg[of a] by simp
next
  case False
  then have "applyNertsAction s a = s \<or> actingIndex s a \<noteq> Some j"
    using not_accepted by blast
  then show ?thesis using other_player_apply[of s a j] by auto
qed

lemma run_Nil [simp]: "run s [] = s"
  by (simp add: run_def)

lemma run_Cons [simp]: "run s (a # as) = run (applyNertsAction s a) as"
  by (simp add: run_def)

lemma run_append: "run s (as @ bs) = run (run s as) bs"
  by (simp add: run_def)

lemma run_snoc: "run s (as @ [a]) = applyNertsAction (run s as) a"
  by (simp add: run_def)

lemma length_players_run: "length (players (run s as)) = length (players s)"
  by (induction as arbitrary: s) (simp_all add: length_players_apply)

lemma score_run_mono: "score (players s ! j) \<le> score (players (run s as) ! j)"
proof (induction as arbitrary: s)
  case Nil
  then show ?case by simp
next
  case (Cons a as)
  have "score (players s ! j) \<le> score (players (applyNertsAction s a) ! j)"
    by (rule score_apply_mono)
  also have "\<dots> \<le> score (players (run (applyNertsAction s a) as) ! j)"
    by (rule Cons.IH)
  finally show ?case by simp
qed

lemma finished_run: "finished s \<Longrightarrow> run s as = s"
  by (induction as) (simp_all add: finished_is_noop)

lemma win_apply:
  assumes "accepted s a" "actingIndex s a = Some k"
    "nertsPile (players (applyNertsAction s a) ! k) = []"
  shows "finished (applyNertsAction s a) \<and> winnerId (applyNertsAction s a) = Some (playerId a)"
  using assms(1)
proof (rule acceptedE)
  fix k' p' fs' d
  assume h: "actingIndex s a = Some k'" "k' < length (players s)"
    "id_player (players s ! k') = playerId a"
    "switch_case (players s ! k') (foundations s) a = Some (p', fs', d, True)"
    "applyNertsAction s a =
       s\<lparr>players := (players s)[k' := p'\<lparr>score := score p' + d\<rparr>], foundations := fs',
         finished := (nertsPile p' = []),
         winnerId := (if nertsPile p' = [] then Some (id_player p') else winnerId s)\<rparr>"
  from h(1) assms(2) have [simp]: "k' = k" by simp
  from assms(3) h(2,5) have "nertsPile p' = []" by simp
  with switch_case_frame[OF h(4)] h(3,5) show ?thesis by simp
qed

lemma winner_finished_apply:
  assumes "winnerId s \<noteq> None \<longrightarrow> finished s"
  shows "winnerId (applyNertsAction s a) \<noteq> None \<longrightarrow> finished (applyNertsAction s a)"
proof (cases "accepted s a")
  case True
  then show ?thesis
  proof (rule acceptedE)
    fix k p' fs' d
    assume "\<not> finished s" and
      "applyNertsAction s a =
       s\<lparr>players := (players s)[k := p'\<lparr>score := score p' + d\<rparr>], foundations := fs',
         finished := (nertsPile p' = []),
         winnerId := (if nertsPile p' = [] then Some (id_player p') else winnerId s)\<rparr>"
    with assms show ?thesis by simp
  qed
next
  case False
  then show ?thesis using assms by (simp add: not_accepted)
qed

lemma winner_finished_run:
  "winnerId s \<noteq> None \<longrightarrow> finished s \<Longrightarrow>
   winnerId (run s as) \<noteq> None \<longrightarrow> finished (run s as)"
proof (induction as arbitrary: s)
  case Nil
  then show ?case by simp
next
  case (Cons a as)
  from Cons.IH[OF winner_finished_apply[OF Cons.prems]] show ?case by simp
qed

lemma winner_stable:
  assumes "winnerId s \<noteq> None \<longrightarrow> finished s" "winnerId (run s as) = Some w"
  shows "winnerId (run s (as @ bs)) = Some w"
proof -
  from winner_finished_run[OF assms(1), of as] assms(2) have "finished (run s as)" by simp
  then have "run (run s as) bs = run s as" by (rule finished_run)
  with assms(2) show ?thesis by (simp add: run_append)
qed

lemma accepted_switch:
  assumes "accepted s a" "actingIndex s a = Some k"
  obtains p' fs' d where
    "switch_case (players s ! k) (foundations s) a = Some (p', fs', d, True)"
  using assms by (auto simp: accepted_def split: if_splits option.splits)

lemma accepted_intro:
  assumes "\<not> finished s" "actingIndex s a = Some k"
    "switch_case (players s ! k) (foundations s) a = Some (p', fs', d, True)"
  shows "accepted s a"
  using assms by (simp add: accepted_def)

section \<open>The bag of cards\<close>

lemma sum_list_map_update:
  fixes f :: "'a \<Rightarrow> 'b::comm_monoid_add"
  assumes "i < length xs"
  shows "sum_list (map f (xs[i := y])) + f (xs ! i) = sum_list (map f xs) + f y"
  using assms
proof (induction xs arbitrary: i)
  case Nil
  then show ?case by simp
next
  case (Cons x xs)
  show ?case
  proof (cases i)
    case 0
    then show ?thesis by (simp add: ac_simps)
  next
    case (Suc n)
    with Cons.prems have "n < length xs" by simp
    from Cons.IH[OF this] Suc show ?thesis
      by (simp add: add.assoc)
  qed
qed

lemma blank_makeFaceUp [simp]: "blank (makeFaceUp c) = blank c"
  by (simp add: blank_def makeFaceUp_def)

lemma blank_faceDown [simp]: "blank (c\<lparr>faceUp := b\<rparr>) = blank c"
  by (simp add: blank_def)

lemma pileBag_Nil [simp]: "pileBag [] = {#}"
  by (simp add: pileBag_def)

lemma pileBag_append [simp]: "pileBag (xs @ ys) = pileBag xs + pileBag ys"
  by (simp add: pileBag_def)

lemma pileBag_single [simp]: "pileBag [c] = {#blank c#}"
  by (simp add: pileBag_def)

lemma pileBag_rev [simp]: "pileBag (rev xs) = pileBag xs"
  by (simp add: pileBag_def rev_map[symmetric])

lemma pileBag_map_makeFaceUp [simp]: "pileBag (map makeFaceUp xs) = pileBag xs"
  by (simp add: pileBag_def comp_def)

lemma pileBag_map_faceDown [simp]: "pileBag (map (\<lambda>c. c\<lparr>faceUp := False\<rparr>) xs) = pileBag xs"
  by (simp add: pileBag_def comp_def)

lemma pileBag_revealTop [simp]: "pileBag (revealTop xs) = pileBag xs"
proof -
  have "map blank (revealTop xs) = map blank xs"
    by (rule nth_equalityI) (auto simp: revealTop_def Let_def nth_list_update)
  then show ?thesis by (simp add: pileBag_def)
qed

lemma pileBag_take_drop: "pileBag (take n xs) + pileBag (drop n xs) = pileBag xs"
  using pileBag_append[of "take n xs" "drop n xs"] by simp

lemma pileBag_butlast: "xs \<noteq> [] \<Longrightarrow> pileBag (butlast xs) + {#blank (last xs)#} = pileBag xs"
  using pileBag_append[of "butlast xs" "[last xs]"] by simp

lemma size_pileBag [simp]: "size (pileBag xs) = length xs"
  by (simp add: pileBag_def)

lemma size_sum_list_bag:
  fixes f :: "'a \<Rightarrow> 'b multiset"
  shows "size (sum_list (map f xs)) = sum_list (map (\<lambda>x. size (f x)) xs)"
  by (induction xs) simp_all

lemma size_playerBag: "size (playerBag p) = playerCards p"
  by (simp add: playerBag_def playerCards_def size_sum_list_bag)

lemma size_stateBag: "size (stateBag s) = totalCards s"
  by (simp add: stateBag_def totalCards_def foundationBag_def foundationCards_def
      size_sum_list_bag size_playerBag)

lemma playerBag_drawLoop: "playerBag (drawLoop n p) = playerBag p"
proof -
  have "pileBag (take (length (stock p) - min n (length (stock p))) (stock p)) +
        pileBag (drop (length (stock p) - min n (length (stock p))) (stock p)) = pileBag (stock p)"
    by (rule pileBag_take_drop)
  then show ?thesis
    by (simp add: drawLoop_eq Let_def playerBag_def ac_simps)
qed

lemma playerBag_score [simp]: "playerBag (p\<lparr>score := x\<rparr>) = playerBag p"
  by (simp add: playerBag_def)

lemma cards_pushFoundation [simp]: "cards (pushFoundation f t) = cards f @ [t]"
  by (simp add: pushFoundation_def Let_def)

lemma foundationBag_push:
  assumes "i < length fs"
  shows "foundationBag (fs[i := pushFoundation (fs ! i) t]) = foundationBag fs + {#blank t#}"
proof -
  have "foundationBag (fs[i := pushFoundation (fs ! i) t]) + pileBag (cards (fs ! i)) =
      foundationBag fs + pileBag (cards (pushFoundation (fs ! i) t))"
    unfolding foundationBag_def
    using sum_list_map_update[OF assms, of "\<lambda>f. pileBag (cards f)" "pushFoundation (fs ! i) t"]
    by simp
  then show ?thesis by simp
qed

lemma tableauBag_update:
  assumes "i < length tab"
  shows "sum_list (map pileBag (tab[i := col])) + pileBag (tab ! i) =
         sum_list (map pileBag tab) + pileBag col"
  using assms by (rule sum_list_map_update)

section \<open>Descending columns\<close>

lemma descending_Nil [simp]: "descending []"
  by (simp add: descending_def)

lemma descending_single [simp]: "descending [c]"
  by (simp add: descending_def)

lemma descending_append:
  "descending (xs @ ys) \<longleftrightarrow>
     descending xs \<and> descending ys \<and>
     (xs = [] \<or> ys = [] \<or> getRankValue (rank (hd ys)) = getRankValue (rank (last xs)) - 1)"
  by (simp add: descending_def successively_append_iff)

lemma descending_take: "descending xs \<Longrightarrow> descending (take n xs)"
  using descending_append[of "take n xs" "drop n xs"] by simp

lemma descending_drop: "descending xs \<Longrightarrow> descending (drop n xs)"
  using descending_append[of "take n xs" "drop n xs"] by simp

lemma descending_butlast: "descending xs \<Longrightarrow> descending (butlast xs)"
  by (simp add: butlast_conv_take descending_take)

lemma descending_revealTop: "descending (revealTop xs) = descending xs"
proof -
  have "map (\<lambda>c. getRankValue (rank c)) (revealTop xs) = map (\<lambda>c. getRankValue (rank c)) xs"
    by (rule nth_equalityI) (auto simp: revealTop_def Let_def nth_list_update makeFaceUp_def)
  moreover have "descending zs =
      successively (\<lambda>a b. b = a - 1) (map (\<lambda>c. getRankValue (rank c)) zs)" for zs
    by (simp add: descending_def successively_map)
  ultimately show ?thesis by simp
qed

lemma descending_hd_last:
  "descending xs \<Longrightarrow> xs \<noteq> [] \<Longrightarrow> getRankValue (rank (last xs)) \<le> getRankValue (rank (hd xs))"
proof (induction xs)
  case Nil
  then show ?case by simp
next
  case (Cons x xs)
  show ?case
  proof (cases xs)
    case Nil
    then show ?thesis by simp
  next
    case (Cons y ys)
    with Cons.prems Cons.IH show ?thesis
      by (simp add: descending_def)
  qed
qed

lemma descending_snoc:
  assumes "descending column" "placeableFromNerts column c"
  shows "descending (column @ [c])"
  using assms
  by (auto simp: descending_append placeableFromNerts_def placeableOnTableau_def
      split: if_splits)

lemma placeable_general_nerts: "placeableOnTableau column c \<Longrightarrow> placeableFromNerts column c"
  by (simp add: placeableFromNerts_def)

text \<open>A card of a descending column never fits on that column's own top.\<close>

lemma descending_not_on_itself:
  assumes "descending column" "idx < length column"
  shows "\<not> placeableOnTableau column (column ! idx)"
proof
  assume p: "placeableOnTableau column (column ! idx)"
  from assms(2) have ne: "column \<noteq> []" by auto
  have "descending (drop idx column)" using assms(1) by (rule descending_drop)
  moreover have "drop idx column \<noteq> []" using assms(2) by simp
  ultimately have "getRankValue (rank (last (drop idx column)))
      \<le> getRankValue (rank (hd (drop idx column)))"
    by (rule descending_hd_last)
  then have "getRankValue (rank (last column)) \<le> getRankValue (rank (column ! idx))"
    using assms(2) by (simp add: hd_drop_conv_nth)
  with p ne show False by (simp add: placeableOnTableau_def)
qed

lemma list_all_update: "list_all P xs \<Longrightarrow> P y \<Longrightarrow> list_all P (xs[i := y])"
  unfolding list_all_iff using set_update_subset_insert[of xs i y] by auto

lemma list_all_nth: "list_all P xs \<Longrightarrow> i < length xs \<Longrightarrow> P (xs ! i)"
  by (simp add: list_all_length)

section \<open>Each case keeps the bag of cards and the descending columns\<close>

lemma tableauBag_push:
  assumes "n < length tab"
  shows "sum_list (map pileBag (tab[n := tab ! n @ ys])) = sum_list (map pileBag tab) + pileBag ys"
proof -
  have "sum_list (map pileBag (tab[n := tab ! n @ ys])) + pileBag (tab ! n) =
      sum_list (map pileBag tab) + pileBag (tab ! n @ ys)"
    using assms by (rule sum_list_map_update)
  then show ?thesis by simp
qed

lemma tableauBag_shrink:
  assumes "n < length tab" "pileBag col + rest = pileBag (tab ! n)"
  shows "sum_list (map pileBag (tab[n := col])) + rest = sum_list (map pileBag tab)"
proof -
  have "sum_list (map pileBag (tab[n := col])) + pileBag (tab ! n) =
      sum_list (map pileBag tab) + pileBag col"
    using assms(1) by (rule sum_list_map_update)
  with assms(2) have "sum_list (map pileBag (tab[n := col])) + (pileBag col + rest) =
      sum_list (map pileBag tab) + pileBag col"
    by simp
  then have "(sum_list (map pileBag (tab[n := col])) + rest) + pileBag col =
      sum_list (map pileBag tab) + pileBag col"
    by (simp only: ac_simps)
  then show ?thesis by (simp only: add_right_cancel)
qed

lemma pileBag_last:
  "xs \<noteq> [] \<Longrightarrow> add_mset (blank (last xs)) (pileBag (butlast xs)) = pileBag xs"
  using pileBag_butlast[of xs] by simp

lemma descending_join:
  assumes "descending column" "descending ys" "ys \<noteq> []" "placeableOnTableau column (hd ys)"
  shows "descending (column @ ys)"
  using assms by (auto simp: descending_append placeableOnTableau_def split: if_splits)

lemma stock_draw_bag:
  assumes "stock_draw player fs = Some (p', fs', d, u)"
  shows "playerBag p' = playerBag player \<and> fs' = fs \<and> tableau p' = tableau player"
proof -
  from stock_draw_Some[OF assms] have
    "fs' = fs" and
    "p' = drawLoop (min 3 (length (stock player))) player \<or>
     p' = player\<lparr>stock := map (\<lambda>c. c\<lparr>faceUp := False\<rparr>) (rev (waste player)), waste := []\<rparr> \<and>
       stock player = [] \<or>
     p' = player"
    by (simp_all split: if_splits)
  then show ?thesis
  proof (elim disjE conjE)
    assume "p' = drawLoop (min 3 (length (stock player))) player"
    with \<open>fs' = fs\<close> show ?thesis by (simp add: playerBag_drawLoop drawLoop_fields)
  next
    assume "p' = player\<lparr>stock := map (\<lambda>c. c\<lparr>faceUp := False\<rparr>) (rev (waste player)),
        waste := []\<rparr>" and "stock player = []"
    with \<open>fs' = fs\<close> show ?thesis by (simp add: playerBag_def)
  next
    assume "p' = player"
    with \<open>fs' = fs\<close> show ?thesis by simp
  qed
qed

lemma waste_to_tableau_bag:
  assumes "waste_to_tableau player fs i = Some (p', fs', d, u)"
    and "list_all descending (tableau player)"
  shows "playerBag p' = playerBag player \<and> fs' = fs \<and> list_all descending (tableau p')"
proof -
  let ?n = "nat i" and ?t = "last (waste player)"
  from waste_to_tableau_Some[OF assms(1)] have
    n: "?n < length (tableau player)" and w: "waste player \<noteq> []" and
    pl: "placeableOnTableau (tableau player ! ?n) ?t" and
    p': "p' = player\<lparr>waste := butlast (waste player),
               tableau := (tableau player)[?n := tableau player ! ?n @ [?t]]\<rparr>" and
    fs: "fs' = fs"
    by simp_all
  have "playerBag p' = pileBag (nertsPile player) + sum_list (map pileBag (tableau player))
      + pileBag (stock player) + (pileBag (butlast (waste player)) + {#blank ?t#})"
    by (simp add: p' playerBag_def tableauBag_push[OF n])
  then have bag: "playerBag p' = playerBag player"
    by (simp add: pileBag_last[OF w] playerBag_def)
  have "descending (tableau player ! ?n @ [?t])"
    using list_all_nth[OF assms(2) n] pl by (simp add: descending_join)
  then have "list_all descending (tableau p')"
    using assms(2) by (simp add: p' list_all_update)
  with bag fs show ?thesis by simp
qed

lemma waste_to_foundation_bag:
  assumes "waste_to_foundation player fs i = Some (p', fs', d, u)"
  shows "playerBag p' + foundationBag fs' = playerBag player + foundationBag fs \<and>
         tableau p' = tableau player"
proof -
  let ?n = "nat i" and ?t = "last (waste player)"
  from waste_to_foundation_Some[OF assms] have
    n: "?n < length fs" and w: "waste player \<noteq> []" and
    p': "p' = player\<lparr>waste := butlast (waste player)\<rparr>" and
    fs: "fs' = fs[?n := pushFoundation (fs ! ?n) ?t]"
    by simp_all
  have "playerBag p' + foundationBag fs' =
      pileBag (nertsPile player) + sum_list (map pileBag (tableau player))
      + pileBag (stock player) + (pileBag (butlast (waste player)) + {#blank ?t#})
      + foundationBag fs"
    by (simp add: p' fs playerBag_def foundationBag_push[OF n])
  then show ?thesis
    by (simp add: pileBag_last[OF w] playerBag_def p')
qed

lemma tableau_to_tableau_bag:
  assumes "tableau_to_tableau player fs i j cid = Some (p', fs', d, u)"
    and "list_all descending (tableau player)"
  shows "playerBag p' = playerBag player \<and> fs' = fs \<and> list_all descending (tableau p')"
proof -
  let ?n = "nat i" and ?m = "nat j" and ?tab = "tableau player"
  from tableau_to_tableau_Some[OF assms(1)]
  obtain idx where
    n: "?n < length ?tab" and m: "?m < length ?tab" and
    idx: "idx < length (?tab ! ?n)" and
    pl: "placeableOnTableau (?tab ! ?m) (?tab ! ?n ! idx)" and
    p': "p' = player\<lparr>tableau := ?tab
            [?n := revealTop (take idx (?tab ! ?n)),
             ?m := ?tab ! ?m @ drop idx (?tab ! ?n)]\<rparr>" and
    fs: "fs' = fs"
    by (elim exE conjE) (rule that)
  have dn: "descending (?tab ! ?n)" and dm: "descending (?tab ! ?m)"
    using assms(2) n m by (simp_all add: list_all_nth)
  have neq: "?n \<noteq> ?m"
    using descending_not_on_itself[OF dn idx] pl by auto
  let ?tab1 = "?tab[?n := revealTop (take idx (?tab ! ?n))]"
  have m1: "?m < length ?tab1" and at_m: "?tab1 ! ?m = ?tab ! ?m"
    using m neq by simp_all
  have "sum_list (map pileBag (?tab1[?m := ?tab1 ! ?m @ drop idx (?tab ! ?n)])) =
      sum_list (map pileBag ?tab1) + pileBag (drop idx (?tab ! ?n))"
    using m1 by (rule tableauBag_push)
  also have "\<dots> = sum_list (map pileBag ?tab)"
    using n by (rule tableauBag_shrink) (simp add: pileBag_take_drop)
  finally have "sum_list (map pileBag (tableau p')) = sum_list (map pileBag ?tab)"
    by (simp add: p' at_m)
  then have bag: "playerBag p' = playerBag player"
    by (simp add: playerBag_def p')
  have "descending (revealTop (take idx (?tab ! ?n)))"
    using dn by (simp add: descending_revealTop descending_take)
  moreover have "descending (?tab ! ?m @ drop idx (?tab ! ?n))"
    using dm descending_drop[OF dn, of idx] idx pl
    by (intro descending_join) (simp_all add: hd_drop_conv_nth)
  ultimately have "list_all descending (tableau p')"
    using assms(2) by (simp add: p' list_all_update)
  with bag fs show ?thesis by simp
qed

lemma tableau_to_foundation_bag:
  assumes "tableau_to_foundation player fs i j = Some (p', fs', d, u)"
    and "list_all descending (tableau player)"
  shows "playerBag p' + foundationBag fs' = playerBag player + foundationBag fs \<and>
         list_all descending (tableau p')"
proof -
  let ?n = "nat i" and ?m = "nat j" and ?tab = "tableau player"
  let ?t = "last (?tab ! ?n)"
  from tableau_to_foundation_Some[OF assms(1)] have
    n: "?n < length ?tab" and m: "?m < length fs" and ne: "?tab ! ?n \<noteq> []" and
    p': "p' = player\<lparr>tableau := ?tab[?n := revealTop (butlast (?tab ! ?n))]\<rparr>" and
    fs: "fs' = fs[?m := pushFoundation (fs ! ?m) ?t]"
    by simp_all
  have "sum_list (map pileBag (?tab[?n := revealTop (butlast (?tab ! ?n))])) + {#blank ?t#} =
      sum_list (map pileBag ?tab)"
    using n by (rule tableauBag_shrink) (simp add: pileBag_last[OF ne])
  then have "playerBag p' + {#blank ?t#} = playerBag player"
    by (simp add: playerBag_def p' ac_simps)
  then have bag: "playerBag p' + foundationBag fs' = playerBag player + foundationBag fs"
    by (simp add: fs foundationBag_push[OF m] ac_simps)
  have "descending (revealTop (butlast (?tab ! ?n)))"
    using list_all_nth[OF assms(2) n] by (simp add: descending_revealTop descending_butlast)
  then have "list_all descending (tableau p')"
    using assms(2) by (simp add: p' list_all_update)
  with bag show ?thesis by simp
qed

lemma nerts_to_tableau_bag:
  assumes "nerts_to_tableau player fs i = Some (p', fs', d, u)"
    and "list_all descending (tableau player)"
  shows "playerBag p' = playerBag player \<and> fs' = fs \<and> list_all descending (tableau p')"
proof -
  let ?n = "nat i" and ?t = "last (nertsPile player)"
  from nerts_to_tableau_Some[OF assms(1)] have
    n: "?n < length (tableau player)" and w: "nertsPile player \<noteq> []" and
    pl: "placeableFromNerts (tableau player ! ?n) ?t" and
    p': "p' = player\<lparr>nertsPile := revealTop (butlast (nertsPile player)),
               tableau := (tableau player)[?n := tableau player ! ?n @ [?t]]\<rparr>" and
    fs: "fs' = fs"
    by simp_all
  have "playerBag p' = (pileBag (butlast (nertsPile player)) + {#blank ?t#})
      + sum_list (map pileBag (tableau player)) + pileBag (stock player) + pileBag (waste player)"
    by (simp add: p' playerBag_def tableauBag_push[OF n])
  then have bag: "playerBag p' = playerBag player"
    by (simp add: pileBag_last[OF w] playerBag_def)
  have "descending (tableau player ! ?n @ [?t])"
    using list_all_nth[OF assms(2) n] pl by (rule descending_snoc)
  then have "list_all descending (tableau p')"
    using assms(2) by (simp add: p' list_all_update)
  with bag fs show ?thesis by simp
qed

lemma nerts_to_foundation_bag:
  assumes "nerts_to_foundation player fs i = Some (p', fs', d, u)"
  shows "playerBag p' + foundationBag fs' = playerBag player + foundationBag fs \<and>
         tableau p' = tableau player"
proof -
  let ?n = "nat i" and ?t = "last (nertsPile player)"
  from nerts_to_foundation_Some[OF assms] have
    n: "?n < length fs" and w: "nertsPile player \<noteq> []" and
    p': "p' = player\<lparr>nertsPile := revealTop (butlast (nertsPile player))\<rparr>" and
    fs: "fs' = fs[?n := pushFoundation (fs ! ?n) ?t]"
    by simp_all
  have "playerBag p' + foundationBag fs' =
      (pileBag (butlast (nertsPile player)) + {#blank ?t#})
      + sum_list (map pileBag (tableau player))
      + pileBag (stock player) + pileBag (waste player) + foundationBag fs"
    by (simp add: p' fs playerBag_def foundationBag_push[OF n])
  then show ?thesis
    by (simp add: pileBag_last[OF w] playerBag_def p')
qed

lemma switch_case_bag:
  assumes "switch_case player fs a = Some (p', fs', d, u)"
    and "list_all descending (tableau player)"
  shows "playerBag p' + foundationBag fs' = playerBag player + foundationBag fs \<and>
         list_all descending (tableau p')"
  using assms(1)
proof (cases rule: switch_case_split)
  case (StockDraw x)
  from stock_draw_bag[OF StockDraw(2)] assms(2) show ?thesis by simp
next
  case (WasteToTableau x i)
  from waste_to_tableau_bag[OF WasteToTableau(2) assms(2)] show ?thesis by simp
next
  case (WasteToFoundation x i)
  from waste_to_foundation_bag[OF WasteToFoundation(2)] assms(2) show ?thesis by simp
next
  case (TableauToTableau x i j cid)
  from tableau_to_tableau_bag[OF TableauToTableau(2) assms(2)] show ?thesis by simp
next
  case (TableauToFoundation x i j)
  from tableau_to_foundation_bag[OF TableauToFoundation(2) assms(2)] show ?thesis by simp
next
  case (NertsToTableau x i)
  from nerts_to_tableau_bag[OF NertsToTableau(2) assms(2)] show ?thesis by simp
next
  case (NertsToFoundation x i)
  from nerts_to_foundation_bag[OF NertsToFoundation(2)] assms(2) show ?thesis by simp
qed

section \<open>The bag of cards along a game\<close>

lemma apply_bag:
  assumes "descendingTableaus s"
  shows "stateBag (applyNertsAction s a) = stateBag s \<and>
         descendingTableaus (applyNertsAction s a)"
proof (cases "accepted s a")
  case False
  then show ?thesis using assms by (simp add: not_accepted)
next
  case True
  then obtain k p' fs' d where
    k: "k < length (players s)" and
    sw: "switch_case (players s ! k) (foundations s) a = Some (p', fs', d, True)" and
    ap: "applyNertsAction s a =
       s\<lparr>players := (players s)[k := p'\<lparr>score := score p' + d\<rparr>], foundations := fs',
         finished := (nertsPile p' = []),
         winnerId := (if nertsPile p' = [] then Some (id_player p') else winnerId s)\<rparr>"
    by (rule acceptedE)
  have dk: "list_all descending (tableau (players s ! k))"
    using assms k unfolding descendingTableaus_def
    by (rule list_all_nth)
  from switch_case_bag[OF sw dk] have
    bag: "playerBag p' + foundationBag fs' = playerBag (players s ! k) + foundationBag (foundations s)"
    and desc: "list_all descending (tableau p')"
    by simp_all
  have "sum_list (map playerBag ((players s)[k := p'\<lparr>score := score p' + d\<rparr>]))
          + playerBag (players s ! k) =
        sum_list (map playerBag (players s)) + playerBag (p'\<lparr>score := score p' + d\<rparr>)"
    using k by (rule sum_list_map_update)
  then have "stateBag (applyNertsAction s a) + playerBag (players s ! k) =
      sum_list (map playerBag (players s)) + (playerBag p' + foundationBag fs')"
    by (simp add: ap stateBag_def ac_simps)
  also have "\<dots> = stateBag s + playerBag (players s ! k)"
    unfolding bag by (simp add: stateBag_def ac_simps)
  finally have "stateBag (applyNertsAction s a) = stateBag s"
    by (simp only: add_right_cancel)
  moreover have "descendingTableaus (applyNertsAction s a)"
    using assms desc unfolding descendingTableaus_def
    by (simp add: ap list_all_update)
  ultimately show ?thesis by simp
qed

lemma run_bag:
  "descendingTableaus s \<Longrightarrow> stateBag (run s as) = stateBag s \<and> descendingTableaus (run s as)"
proof (induction as arbitrary: s)
  case Nil
  then show ?case by simp
next
  case (Cons a as)
  from apply_bag[OF Cons.prems, of a] Cons.IH[of "applyNertsAction s a"]
  show ?case by simp
qed

lemma length_dealt: "length (shuffle js createDeck) = 52"
  by (simp add: length_shuffle length_createDeck)

lemma playerCards_dealPlayer: "playerCards (dealPlayer js pid) = 52"
  by (simp add: dealPlayer_def Let_def playerCards_def length_dealt)

lemma descending_dealPlayer: "list_all descending (tableau (dealPlayer js pid))"
  by (simp add: dealPlayer_def Let_def)

lemma totalCards_initNerts:
  "totalCards (initNerts config rnd now) = 52 * length (playerIds config)"
proof -
  have "sum_list (map (\<lambda>x. playerCards (dealPlayer (rnd (fst x)) (snd x))) xs) = 52 * length xs"
    for xs :: "(nat \<times> PlayerId) list"
    by (induction xs) (simp_all add: playerCards_dealPlayer)
  then have "sum_list (map playerCards (players (initNerts config rnd now))) =
      52 * length (playerIds config)"
    by (simp add: initNerts_def split_def comp_def)
  moreover have "foundationCards (foundations (initNerts config rnd now)) = 0"
    by (simp add: initNerts_def foundationCards_def)
  ultimately show ?thesis by (simp add: totalCards_def)
qed

lemma descendingTableaus_initNerts: "descendingTableaus (initNerts config rnd now)"
  using descending_dealPlayer
  by (simp add: descendingTableaus_def initNerts_def list_all_iff split_def)

lemma length_players_initNerts:
  "length (players (initNerts config rnd now)) = length (playerIds config)"
  by (simp add: initNerts_def)

section \<open>Foundation slots\<close>

lemma suit_pile_pushFoundation:
  "suit_pile (pushFoundation f t) = (if suit_pile f = None then Some (suit t) else suit_pile f)"
  by (simp add: pushFoundation_def Let_def)

lemma ascendingRun_pushFoundation:
  assumes "ascendingRun f" "placeableOnFoundation f t"
  shows "ascendingRun (pushFoundation f t)"
proof -
  let ?n = "length (cards f)"
  have ranks: "map (\<lambda>c. getRankValue (rank c)) (cards f) = map int [1 ..< Suc ?n]"
    using assms(1) by (simp add: ascendingRun_def)
  have "getRankValue (rank t) = int (Suc ?n)"
  proof (cases "cards f = []")
    case True
    with assms(2) show ?thesis
      by (simp add: placeableOnFoundation_def getRankValue_simps)
  next
    case False
    then have "getRankValue (rank (last (cards f))) =
        last (map (\<lambda>c. getRankValue (rank c)) (cards f))"
      by (simp add: last_map)
    also have "\<dots> = int ?n"
    proof -
      from False have "Suc 0 \<le> ?n" by (cases "cards f") simp_all
      then show ?thesis unfolding ranks by simp
    qed
    finally show ?thesis
      using assms(2) False by (simp add: placeableOnFoundation_def)
  qed
  then have r: "map (\<lambda>c. getRankValue (rank c)) (cards f @ [t]) = map int [1 ..< Suc (Suc ?n)]"
    using ranks by simp
  have s: "\<exists>x. suit_pile (pushFoundation f t) = Some x \<and>
      list_all (\<lambda>c. suit c = x) (cards f @ [t])"
  proof (cases "suit_pile f")
    case None
    with assms(1) have "cards f = []" by (simp add: ascendingRun_def)
    with None show ?thesis by (simp add: suit_pile_pushFoundation)
  next
    case (Some x)
    with assms(1) have ne: "cards f \<noteq> []" and all: "list_all (\<lambda>c. suit c = x) (cards f)"
      by (simp_all add: ascendingRun_def)
    from all ne have "suit (last (cards f)) = x"
      by (simp add: list_all_iff)
    with assms(2) ne have "suit t = x" by (simp add: placeableOnFoundation_def)
    with Some all show ?thesis by (simp add: suit_pile_pushFoundation)
  qed
  from r s show ?thesis by (auto simp: ascendingRun_def)
qed

lemma slotStep_refl [simp]: "slotStep f f"
  by (simp add: slotStep_def)

lemma slotStep_push: "placeableOnFoundation f t \<Longrightarrow> slotStep f (pushFoundation f t)"
  by (simp add: slotStep_def)

lemma slotStep_update:
  assumes "m < length fs" "placeableOnFoundation (fs ! m) t"
  shows "slotStep (fs ! n) (fs[m := pushFoundation (fs ! m) t] ! n)"
  using assms by (cases "n = m") (simp_all add: slotStep_push)

lemma switch_case_slot:
  assumes "switch_case player fs a = Some (p', fs', d, u)"
  shows "slotStep (fs ! n) (fs' ! n)"
  using assms
proof (cases rule: switch_case_split)
  case (StockDraw x)
  from stock_draw_Some[OF StockDraw(2)] show ?thesis by simp
next
  case (WasteToTableau x i)
  from waste_to_tableau_Some[OF WasteToTableau(2)] show ?thesis by simp
next
  case (WasteToFoundation x i)
  from waste_to_foundation_Some[OF WasteToFoundation(2)] show ?thesis
    by (simp add: slotStep_update)
next
  case (TableauToTableau x i j cid)
  from tableau_to_tableau_Some[OF TableauToTableau(2)] show ?thesis by auto
next
  case (TableauToFoundation x i j)
  from tableau_to_foundation_Some[OF TableauToFoundation(2)] show ?thesis
    by (simp add: slotStep_update)
next
  case (NertsToTableau x i)
  from nerts_to_tableau_Some[OF NertsToTableau(2)] show ?thesis by simp
next
  case (NertsToFoundation x i)
  from nerts_to_foundation_Some[OF NertsToFoundation(2)] show ?thesis
    by (simp add: slotStep_update)
qed

lemma apply_slot: "slotStep (foundations s ! n) (foundations (applyNertsAction s a) ! n)"
proof (cases "accepted s a")
  case False
  then show ?thesis by (simp add: not_accepted)
next
  case True
  then obtain k p' fs' d where
    sw: "switch_case (players s ! k) (foundations s) a = Some (p', fs', d, True)" and
    ap: "applyNertsAction s a =
       s\<lparr>players := (players s)[k := p'\<lparr>score := score p' + d\<rparr>], foundations := fs',
         finished := (nertsPile p' = []),
         winnerId := (if nertsPile p' = [] then Some (id_player p') else winnerId s)\<rparr>"
    by (rule acceptedE)
  from switch_case_slot[OF sw, of n] show ?thesis by (simp add: ap)
qed

lemma length_foundations_apply:
  "length (foundations (applyNertsAction s a)) = length (foundations s)"
proof (cases "accepted s a")
  case False
  then show ?thesis by (simp add: not_accepted)
next
  case True
  then obtain k p' fs' d where
    sw: "switch_case (players s ! k) (foundations s) a = Some (p', fs', d, True)" and
    ap: "applyNertsAction s a =
       s\<lparr>players := (players s)[k := p'\<lparr>score := score p' + d\<rparr>], foundations := fs',
         finished := (nertsPile p' = []),
         winnerId := (if nertsPile p' = [] then Some (id_player p') else winnerId s)\<rparr>"
    by (rule acceptedE)
  from switch_case_frame[OF sw] show ?thesis by (simp add: ap)
qed

lemma length_foundations_run: "length (foundations (run s as)) = length (foundations s)"
  by (induction as arbitrary: s) (simp_all add: length_foundations_apply)

lemma slotStep_cases:
  assumes "slotStep f f'"
  obtains (same) "f' = f"
  | (push) c where "placeableOnFoundation f c" "f' = pushFoundation f c"
  using assms unfolding slotStep_def by blast

lemma slotStep_ascendingRun: "slotStep f f' \<Longrightarrow> ascendingRun f \<Longrightarrow> ascendingRun f'"
  by (erule slotStep_cases) (simp_all add: ascendingRun_pushFoundation)

lemma slotStep_suit: "slotStep f f' \<Longrightarrow> suit_pile f = Some x \<Longrightarrow> suit_pile f' = Some x"
  by (erule slotStep_cases) (simp_all add: suit_pile_pushFoundation)

lemma run_ascendingRun:
  "ascendingRun (foundations s ! n) \<Longrightarrow> ascendingRun (foundations (run s as) ! n)"
proof (induction as arbitrary: s)
  case Nil
  then show ?case by simp
next
  case (Cons a as)
  from slotStep_ascendingRun[OF apply_slot Cons.prems] Cons.IH show ?case by simp
qed

lemma run_suit:
  "suit_pile (foundations s ! n) = Some x \<Longrightarrow> suit_pile (foundations (run s as) ! n) = Some x"
proof (induction as arbitrary: s)
  case Nil
  then show ?case by simp
next
  case (Cons a as)
  from slotStep_suit[OF apply_slot Cons.prems] Cons.IH show ?case by simp
qed

lemma ascendingRun_initNerts:
  "n < length (foundations (initNerts config rnd now)) \<Longrightarrow>
   ascendingRun (foundations (initNerts config rnd now) ! n)"
  by (simp add: initNerts_def ascendingRun_def)

section \<open>Face-up cards\<close>

lemma faceUpClosed_all:
  "faceUpClosed xs \<Longrightarrow> xs \<noteq> [] \<Longrightarrow> faceUp (hd xs) \<Longrightarrow> list_all faceUp xs"
proof (induction xs)
  case Nil
  then show ?case by simp
next
  case (Cons x xs)
  then show ?case
    by (cases xs) (simp_all add: faceUpClosed_def)
qed

lemma faceUpClosed_drop: "faceUpClosed xs \<Longrightarrow> faceUpClosed (drop n xs)"
  using successively_append_iff[of "\<lambda>a b. faceUp a \<longrightarrow> faceUp b" "take n xs" "drop n xs"]
  by (simp add: faceUpClosed_def)

lemma all_faceUpClosed: "list_all faceUp xs \<Longrightarrow> faceUpClosed xs"
proof (induction xs)
  case Nil
  then show ?case by (simp add: faceUpClosed_def)
next
  case (Cons x xs)
  then show ?case
    by (cases xs) (simp_all add: faceUpClosed_def)
qed

lemma revealTop_faceUp: "list_all faceUp xs \<Longrightarrow> list_all faceUp (revealTop xs)"
  by (simp add: revealTop_def Let_def list_all_update makeFaceUp_def)

lemma list_all_butlast: "list_all P xs \<Longrightarrow> list_all P (butlast xs)"
  by (auto simp: list_all_iff dest: in_set_butlastD)

lemma list_all_take: "list_all P xs \<Longrightarrow> list_all P (take n xs)"
  by (auto simp: list_all_iff dest: in_set_takeD)

lemma list_all_drop: "list_all P xs \<Longrightarrow> list_all P (drop n xs)"
  by (auto simp: list_all_iff dest: in_set_dropD)

lemma list_all_last: "list_all P xs \<Longrightarrow> xs \<noteq> [] \<Longrightarrow> P (last xs)"
  by (simp add: list_all_iff)

lemma faceUpPiles_drawLoop: "faceUpPiles p \<Longrightarrow> faceUpPiles (drawLoop n p)"
  by (auto simp: faceUpPiles_def drawLoop_eq Let_def list_all_iff makeFaceUp_def)

lemma switch_case_faceUp:
  assumes "switch_case player fs a = Some (p', fs', d, u)" and "faceUpPiles player"
  shows "faceUpPiles p'"
  using assms(1)
proof (cases rule: switch_case_split)
  case (StockDraw x)
  from stock_draw_Some[OF StockDraw(2)] have
    "p' = drawLoop (min 3 (length (stock player))) player \<or>
     p' = player\<lparr>stock := map (\<lambda>c. c\<lparr>faceUp := False\<rparr>) (rev (waste player)), waste := []\<rparr> \<or>
     p' = player"
    by (simp split: if_splits)
  then show ?thesis
  proof (elim disjE)
    assume "p' = drawLoop (min 3 (length (stock player))) player"
    with assms(2) show ?thesis by (simp add: faceUpPiles_drawLoop)
  next
    assume "p' = player\<lparr>stock := map (\<lambda>c. c\<lparr>faceUp := False\<rparr>) (rev (waste player)), waste := []\<rparr>"
    with assms(2) show ?thesis by (simp add: faceUpPiles_def)
  next
    assume "p' = player"
    with assms(2) show ?thesis by simp
  qed
next
  case (WasteToTableau x i)
  from waste_to_tableau_Some[OF WasteToTableau(2)] have
    n: "nat i < length (tableau player)" and w: "waste player \<noteq> []" and
    p': "p' = player\<lparr>waste := butlast (waste player),
               tableau := (tableau player)[nat i := tableau player ! nat i @ [last (waste player)]]\<rparr>"
    by simp_all
  from assms(2) have t: "list_all (list_all faceUp) (tableau player)"
    and ws: "list_all faceUp (waste player)"
    by (simp_all add: faceUpPiles_def)
  have "list_all faceUp (tableau player ! nat i @ [last (waste player)])"
    using list_all_nth[OF t n] list_all_last[OF ws w] by simp
  with t ws show ?thesis
    by (simp add: p' faceUpPiles_def list_all_update list_all_butlast)
next
  case (WasteToFoundation x i)
  from waste_to_foundation_Some[OF WasteToFoundation(2)] assms(2) show ?thesis
    by (simp add: faceUpPiles_def list_all_butlast)
next
  case (TableauToTableau x i j cid)
  from tableau_to_tableau_Some[OF TableauToTableau(2)]
  obtain idx where
    n: "nat i < length (tableau player)" and m: "nat j < length (tableau player)" and
    p': "p' = player\<lparr>tableau := (tableau player)
            [nat i := revealTop (take idx (tableau player ! nat i)),
             nat j := tableau player ! nat j @ drop idx (tableau player ! nat i)]\<rparr>"
    by (elim exE conjE) (rule that)
  from assms(2) have t: "list_all (list_all faceUp) (tableau player)"
    and ws: "list_all faceUp (waste player)"
    by (simp_all add: faceUpPiles_def)
  have "list_all faceUp (revealTop (take idx (tableau player ! nat i)))"
    using list_all_nth[OF t n] by (simp add: revealTop_faceUp list_all_take)
  moreover have "list_all faceUp (tableau player ! nat j @ drop idx (tableau player ! nat i))"
    using list_all_nth[OF t n] list_all_nth[OF t m] by (simp add: list_all_drop)
  ultimately show ?thesis
    using t ws by (simp add: p' faceUpPiles_def list_all_update)
next
  case (TableauToFoundation x i j)
  from tableau_to_foundation_Some[OF TableauToFoundation(2)] have
    n: "nat i < length (tableau player)" and
    p': "p' = player\<lparr>tableau :=
        (tableau player)[nat i := revealTop (butlast (tableau player ! nat i))]\<rparr>"
    by simp_all
  from assms(2) have t: "list_all (list_all faceUp) (tableau player)"
    and ws: "list_all faceUp (waste player)"
    by (simp_all add: faceUpPiles_def)
  have "list_all faceUp (revealTop (butlast (tableau player ! nat i)))"
    using list_all_nth[OF t n] by (simp add: revealTop_faceUp list_all_butlast)
  with t ws show ?thesis
    by (simp add: p' faceUpPiles_def list_all_update)
next
  case (NertsToTableau x i)
  from nerts_to_tableau_Some[OF NertsToTableau(2)] have
    n: "nat i < length (tableau player)" and up: "faceUp (last (nertsPile player))" and
    p': "p' = player\<lparr>nertsPile := revealTop (butlast (nertsPile player)),
       tableau := (tableau player)[nat i := tableau player ! nat i @ [last (nertsPile player)]]\<rparr>"
    by simp_all
  from assms(2) have t: "list_all (list_all faceUp) (tableau player)"
    and ws: "list_all faceUp (waste player)"
    by (simp_all add: faceUpPiles_def)
  have "list_all faceUp (tableau player ! nat i @ [last (nertsPile player)])"
    using list_all_nth[OF t n] up by simp
  with t ws show ?thesis
    by (simp add: p' faceUpPiles_def list_all_update)
next
  case (NertsToFoundation x i)
  from nerts_to_foundation_Some[OF NertsToFoundation(2)] assms(2) show ?thesis
    by (simp add: faceUpPiles_def)
qed

lemma apply_faceUp:
  assumes "list_all faceUpPiles (players s)"
  shows "list_all faceUpPiles (players (applyNertsAction s a))"
proof (cases "accepted s a")
  case False
  then show ?thesis using assms by (simp add: not_accepted)
next
  case True
  then obtain k p' fs' d where
    k: "k < length (players s)" and
    sw: "switch_case (players s ! k) (foundations s) a = Some (p', fs', d, True)" and
    ap: "applyNertsAction s a =
       s\<lparr>players := (players s)[k := p'\<lparr>score := score p' + d\<rparr>], foundations := fs',
         finished := (nertsPile p' = []),
         winnerId := (if nertsPile p' = [] then Some (id_player p') else winnerId s)\<rparr>"
    by (rule acceptedE)
  from switch_case_faceUp[OF sw list_all_nth[OF assms k]]
  have "faceUpPiles (p'\<lparr>score := score p' + d\<rparr>)" by (simp add: faceUpPiles_def)
  with assms show ?thesis by (simp add: ap list_all_update)
qed

lemma run_faceUp:
  "list_all faceUpPiles (players s) \<Longrightarrow> list_all faceUpPiles (players (run s as))"
  by (induction as arbitrary: s) (simp_all add: apply_faceUp)

lemma faceUpPiles_dealPlayer: "faceUpPiles (dealPlayer js pid)"
  by (simp add: faceUpPiles_def dealPlayer_def Let_def makeFaceUp_def)

lemma faceUpPiles_initNerts: "list_all faceUpPiles (players (initNerts config rnd now))"
  using faceUpPiles_dealPlayer by (simp add: initNerts_def list_all_iff split_def)

section \<open>The searches of the bot\<close>




lemma nullish_None [simp]: "nullish None b = b"
  by (simp add: nullish_def)

lemma nullish_Some [simp]: "nullish (Some x) b = Some x"
  by (simp add: nullish_def)















section \<open>The guards are exactly acceptance\<close>

lemma findIndex_distinct:
  "distinct (map f xs) \<Longrightarrow> i < length xs \<Longrightarrow> findIndex (\<lambda>c. f c = f (xs ! i)) xs = Some i"
proof (induction xs arbitrary: i)
  case Nil
  then show ?case by simp
next
  case (Cons x xs)
  show ?case
  proof (cases i)
    case 0
    then show ?thesis by simp
  next
    case (Suc n)
    with Cons.prems have n: "n < length xs" and d: "distinct (map f xs)"
      and nx: "f x \<notin> f ` set xs"
      by simp_all
    from n nx have "f x \<noteq> f (xs ! n)" by (metis imageI nth_mem)
    with Cons.IH[OF d n] Suc show ?thesis by simp
  qed
qed

text \<open>
  The converse of \<open>switch_case_guards\<close>: when the card ids of every column are
  distinct, the guards are also sufficient for the case to go through.
\<close>

lemma guards_switch_case:
  assumes "guardsOfCase player fs a"
    and "list_all (\<lambda>column. distinct (map id_card column)) (tableau player)"
  shows "\<exists>p' fs' d. switch_case player fs a = Some (p', fs', d, True)"
proof (cases a)
  case (StockDraw x)
  with assms(1) show ?thesis by (auto simp: stock_draw_def)
next
  case (WasteToTableau x i)
  with assms(1) show ?thesis
    by (auto simp: waste_to_tableau_def canPlaceOnTableau_eq top_js_eq[of "waste player"]
        split: option.splits)
next
  case (WasteToFoundation x i)
  with assms(1) show ?thesis
    by (auto simp: waste_to_foundation_def canPlaceOnFoundation_eq top_js_eq
        split: option.splits)
next
  case (TableauToTableau x i j cid)
  with assms(1) obtain source destination where
    src: "nth_js (tableau player) i = Some source" and
    dst: "nth_js (tableau player) j = Some destination" and
    ex: "list_ex (\<lambda>c. id_card c = cid \<and> faceUp c \<and> placeableOnTableau destination c) source"
    by (auto split: option.splits)
  from ex obtain idx where idx: "idx < length source" and c: "id_card (source ! idx) = cid"
    "faceUp (source ! idx)" "placeableOnTableau destination (source ! idx)"
    by (auto simp: list_ex_iff in_set_conv_nth)
  from src have "source \<in> set (tableau player)"
    by (auto simp: nth_js_Some)
  with assms(2) have "distinct (map id_card source)" by (simp add: list_all_iff)
  from findIndex_distinct[OF this idx] c(1)
  have fi: "findIndex (\<lambda>c. id_card c = cid) source = Some idx" by simp
  have m: "nth_js (drop idx source) 0 = Some (source ! idx)"
    using idx by (simp add: nth_js_def)
  show ?thesis
    using TableauToTableau src dst fi m c(2,3)
    by (simp add: tableau_to_tableau_def canPlaceOnTableau_eq Let_def)
next
  case (TableauToFoundation x i j)
  with assms(1) show ?thesis
    by (auto simp: tableau_to_foundation_def canPlaceOnFoundation_eq top_js_eq
        split: option.splits)
next
  case (NertsToTableau x i)
  with assms(1) show ?thesis
    by (auto simp: nerts_to_tableau_def canPlaceOnTableau_eq top_js_eq[of "nertsPile player"]
        split: option.splits)
next
  case (NertsToFoundation x i)
  with assms(1) show ?thesis
    by (auto simp: nerts_to_foundation_def canPlaceOnFoundation_eq top_js_eq
        split: option.splits)
qed

lemma guards_accepted:
  assumes "guardsHold s a"
    and "list_all (\<lambda>p. list_all (\<lambda>column. distinct (map id_card column)) (tableau p)) (players s)"
  shows "accepted s a"
proof -
  from assms(1) obtain p where nf: "\<not> finished s" and
    f: "find_js (\<lambda>p. id_player p = playerId a) (players s) = Some p" and
    pre: "guardsOfCase p (foundations s) a"
    by (auto simp: guardsHold_def split: option.splits)
  from f obtain k where k: "actingIndex s a = Some k" and p: "p = players s ! k"
    by (auto simp: find_js_findIndex actingIndex_def)
  from k have "k < length (players s)"
    using findIndex_Some[of "\<lambda>p. id_player p = playerId a" "players s" k]
    by (simp add: actingIndex_def)
  with assms(2) p have "list_all (\<lambda>column. distinct (map id_card column)) (tableau p)"
    by (simp add: list_all_length)
  from guards_switch_case[OF pre this] nf k p show ?thesis
    by (auto intro: accepted_intro)
qed

lemma faceUpPiles_no_exposing_run: "faceUpPiles p \<Longrightarrow> \<not> runExposesCard p from idx to"
proof
  assume a: "faceUpPiles p" and r: "runExposesCard p from idx to"
  from r have "from < length (tableau p)" "idx - 1 < length (tableau p ! from)"
    "\<not> faceUp (tableau p ! from ! (idx - 1))"
    by (auto simp: runExposesCard_def)
  moreover from a have "list_all (list_all faceUp) (tableau p)"
    by (simp add: faceUpPiles_def)
  ultimately show False
    by (simp add: list_all_length)
qed

section \<open>The reducer raises no error\<close>

lemma canPlaceOnFoundationE_eq:
  "canPlaceOnFoundationE pile c = Inr (canPlaceOnFoundation pile c)"
proof (cases "cards pile = []")
  case True
  then show ?thesis by (simp add: canPlaceOnFoundationE_def canPlaceOnFoundation_def)
next
  case False
  then have "nth_js (cards pile) (int (length (cards pile)) - 1) = Some (last (cards pile))"
    using top_js_eq[of "cards pile"] by (simp add: top_js_def)
  with False show ?thesis
    by (simp add: canPlaceOnFoundationE_def canPlaceOnFoundation_def top_js_eq Let_def)
qed

lemma revealTopE_eq: "revealTopE pile = Inr (revealTop pile)"
proof (cases "pile = []")
  case True
  then show ?thesis by (simp add: revealTopE_def revealTop_def)
next
  case False
  then have "nth_js pile (int (length pile - 1)) = Some (pile ! (length pile - 1))"
    by (simp add: nth_js_nat)
  with False show ?thesis
    by (simp add: revealTopE_def revealTop_def Let_def)
qed

lemma stock_drawE_eq: "stock_drawE player fs = Inr (stock_draw player fs)"
  by (simp add: stock_drawE_def stock_draw_def)

lemma waste_to_tableauE_eq: "waste_to_tableauE player fs i = Inr (waste_to_tableau player fs i)"
  by (simp add: waste_to_tableauE_def waste_to_tableau_def Let_def split: option.splits)

lemma waste_to_foundationE_eq:
  "waste_to_foundationE player fs i = Inr (waste_to_foundation player fs i)"
  by (simp add: waste_to_foundationE_def waste_to_foundation_def canPlaceOnFoundationE_eq
      split: option.splits)

lemma tableau_to_tableauE_eq:
  "tableau_to_tableauE player fs i j cid = Inr (tableau_to_tableau player fs i j cid)"
proof -
  have m: "nth_js moving 0 = (if length moving = 0 then None else Some (moving ! 0))"
    for moving :: "NertsCard list"
    by (simp add: nth_js_def)
  show ?thesis
    by (simp add: tableau_to_tableauE_def tableau_to_tableau_def revealTopE_eq Let_def m
        split: option.splits)
qed

lemma tableau_to_foundationE_eq:
  "tableau_to_foundationE player fs i j = Inr (tableau_to_foundation player fs i j)"
  by (simp add: tableau_to_foundationE_def tableau_to_foundation_def canPlaceOnFoundationE_eq
      revealTopE_eq split: option.splits)

lemma nerts_to_tableauE_eq: "nerts_to_tableauE player fs i = Inr (nerts_to_tableau player fs i)"
  by (simp add: nerts_to_tableauE_def nerts_to_tableau_def revealTopE_eq split: option.splits)

lemma nerts_to_foundationE_eq:
  "nerts_to_foundationE player fs i = Inr (nerts_to_foundation player fs i)"
  by (simp add: nerts_to_foundationE_def nerts_to_foundation_def canPlaceOnFoundationE_eq
      revealTopE_eq split: option.splits)

lemma switch_caseE_eq: "switch_caseE player fs a = Inr (switch_case player fs a)"
  by (cases a)
    (simp_all add: stock_drawE_eq waste_to_tableauE_eq waste_to_foundationE_eq
      tableau_to_tableauE_eq tableau_to_foundationE_eq nerts_to_tableauE_eq
      nerts_to_foundationE_eq)

lemma applyNertsActionE_eq: "applyNertsActionE s a = Inr (applyNertsAction s a)"
proof (cases "findIndex (\<lambda>p. id_player p = playerId a) (players s)")
  case None
  then show ?thesis by (simp add: applyNertsActionE_def applyNertsAction_def)
next
  case (Some k)
  from findIndex_Some[OF this] have "nth_js (players s) (int k) = Some (players s ! k)"
    by (simp add: nth_js_nat)
  with Some show ?thesis
    by (simp add: applyNertsActionE_def applyNertsAction_def switch_caseE_eq
        split: option.splits)
qed

section \<open>Guards and preconditions on orderly states\<close>

lemma guardsOfCase_indicesInRange: "guardsOfCase p fs a \<Longrightarrow> indicesInRange p fs a"
  by (cases a) (auto split: option.splits)

lemma guardsHold_addressable: "guardsHold s a \<Longrightarrow> addressable s a"
  by (auto simp: guardsHold_def addressable_def guardsOfCase_indicesInRange
      split: option.splits)

lemma foundationRule_recorded:
  assumes "placeableOnFoundation slot c"
    and "cards slot = [] \<or> suit_pile slot = Some (suit (last (cards slot)))"
  shows "foundationRule slot c"
  using assms by (auto simp: placeableOnFoundation_def foundationRule_def split: if_splits)

lemma placeableOnFoundation_recorded:
  assumes "foundationRule slot c"
    and "cards slot = [] \<or> suit_pile slot = Some (suit (last (cards slot)))"
  shows "placeableOnFoundation slot c"
  using assms by (auto simp: placeableOnFoundation_def foundationRule_def split: if_splits)

lemma nth_js_mem: "nth_js xs i = Some x \<Longrightarrow> x \<in> set xs"
  by (auto simp: nth_js_Some)

text \<open>On orderly piles the guards of a case imply the row of the action table.\<close>

lemma guardsOfCase_actionPrecondition:
  assumes g: "guardsOfCase p fs a"
    and cols: "list_all faceUpClosed (tableau p)"
    and wst: "waste p = [] \<or> faceUp (last (waste p))"
    and slots: "list_all (\<lambda>f. cards f = [] \<or> suit_pile f = Some (suit (last (cards f)))) fs"
  shows "actionPrecondition p fs a"
proof -
  have slot: "foundationRule f c" if "nth_js fs i = Some f" "placeableOnFoundation f c" for i f c
  proof -
    from that(1) slots have "cards f = [] \<or> suit_pile f = Some (suit (last (cards f)))"
      by (auto simp: list_all_iff dest: nth_js_mem)
    with that(2) show ?thesis by (rule foundationRule_recorded)
  qed
  show ?thesis
  proof (cases a)
    case (StockDraw x)
    with g show ?thesis by simp
  next
    case (WasteToTableau x i)
    with g wst show ?thesis by (auto split: option.splits)
  next
    case (WasteToFoundation x i)
    with g wst slot show ?thesis by (auto split: option.splits)
  next
    case (TableauToTableau x i j cid)
    with g obtain source destination where
      src: "nth_js (tableau p) i = Some source" and dst: "nth_js (tableau p) j = Some destination"
      and ex: "list_ex (\<lambda>c. id_card c = cid \<and> faceUp c \<and> placeableOnTableau destination c) source"
      by (auto split: option.splits)
    from ex obtain idx where idx: "idx < length source" and c: "id_card (source ! idx) = cid"
      "faceUp (source ! idx)" "placeableOnTableau destination (source ! idx)"
      by (auto simp: list_ex_iff in_set_conv_nth)
    from src cols have "faceUpClosed source"
      by (auto simp: list_all_iff dest: nth_js_mem)
    then have "faceUpClosed (drop idx source)" by (rule faceUpClosed_drop)
    moreover have "drop idx source \<noteq> []" using idx by simp
    moreover have "faceUp (hd (drop idx source))" using idx c(2) by (simp add: hd_drop_conv_nth)
    ultimately have "list_all faceUp (drop idx source)" by (rule faceUpClosed_all)
    with idx c have "list_ex (\<lambda>idx. id_card (source ! idx) = cid \<and>
        list_all faceUp (drop idx source) \<and> placeableOnTableau destination (source ! idx))
        [0 ..< length source]"
      unfolding list_ex_iff by auto
    with TableauToTableau src dst show ?thesis by simp
  next
    case (TableauToFoundation x i j)
    with g slot show ?thesis by (auto split: option.splits)
  next
    case (NertsToTableau x i)
    with g show ?thesis by (auto split: option.splits)
  next
    case (NertsToFoundation x i)
    with g slot show ?thesis by (auto split: option.splits)
  qed
qed

text \<open>Conversely, the row of the action table implies the guards where the slots are orderly.\<close>

lemma actionPrecondition_guardsOfCase:
  assumes pre: "actionPrecondition p fs a"
    and slots: "list_all (\<lambda>f. cards f = [] \<or> suit_pile f = Some (suit (last (cards f)))) fs"
  shows "guardsOfCase p fs a"
proof -
  have slot: "placeableOnFoundation f c" if "nth_js fs i = Some f" "foundationRule f c" for i f c
  proof -
    from that(1) slots have "cards f = [] \<or> suit_pile f = Some (suit (last (cards f)))"
      by (auto simp: list_all_iff dest: nth_js_mem)
    with that(2) show ?thesis by (rule placeableOnFoundation_recorded)
  qed
  show ?thesis
  proof (cases a)
    case (StockDraw x)
    with pre show ?thesis by simp
  next
    case (WasteToTableau x i)
    with pre show ?thesis by (auto split: option.splits)
  next
    case (WasteToFoundation x i)
    with pre slot show ?thesis by (auto split: option.splits)
  next
    case (TableauToTableau x i j cid)
    with pre obtain source destination where
      src: "nth_js (tableau p) i = Some source" and dst: "nth_js (tableau p) j = Some destination"
      and ex: "list_ex (\<lambda>idx. id_card (source ! idx) = cid \<and>
        list_all faceUp (drop idx source) \<and> placeableOnTableau destination (source ! idx))
        [0 ..< length source]"
      by (auto split: option.splits)
    from ex obtain idx where idx: "idx < length source" and c: "id_card (source ! idx) = cid"
      "list_all faceUp (drop idx source)" "placeableOnTableau destination (source ! idx)"
      by (auto simp: list_ex_iff)
    from idx have "source ! idx \<in> set (drop idx source)"
      by (simp add: Cons_nth_drop_Suc[symmetric])
    with c(2) have "faceUp (source ! idx)" by (simp add: list_all_iff)
    with idx c have "list_ex (\<lambda>c. id_card c = cid \<and> faceUp c \<and>
        placeableOnTableau destination c) source"
      unfolding list_ex_iff by (metis nth_mem)
    with TableauToTableau src dst show ?thesis by simp
  next
    case (TableauToFoundation x i j)
    with pre slot show ?thesis by (auto split: option.splits)
  next
    case (NertsToTableau x i)
    with pre show ?thesis by (auto split: option.splits)
  next
    case (NertsToFoundation x i)
    with pre slot show ?thesis by (auto split: option.splits)
  qed
qed

lemma orderly_guards_precondition:
  assumes "orderly s" "guardsHold s a"
  shows "precondition s a"
proof -
  from assms(2) obtain p where nf: "\<not> finished s" and
    f: "find_js (\<lambda>p. id_player p = playerId a) (players s) = Some p" and
    g: "guardsOfCase p (foundations s) a"
    by (auto simp: guardsHold_def split: option.splits)
  from f have "p \<in> set (players s)"
    by (auto simp: find_js_findIndex dest: findIndex_Some)
  with assms(1) have "list_all faceUpClosed (tableau p)" "waste p = [] \<or> faceUp (last (waste p))"
    by (auto simp: orderly_def list_all_iff)
  moreover from assms(1) have
    "list_all (\<lambda>f. cards f = [] \<or> suit_pile f = Some (suit (last (cards f)))) (foundations s)"
    by (simp add: orderly_def)
  ultimately have "actionPrecondition p (foundations s) a"
    by (intro guardsOfCase_actionPrecondition[OF g])
  with nf f show ?thesis by (simp add: precondition_def)
qed

lemma orderly_precondition_guards:
  assumes "orderly s" "precondition s a"
  shows "guardsHold s a"
proof -
  from assms(2) obtain p where nf: "\<not> finished s" and
    f: "find_js (\<lambda>p. id_player p = playerId a) (players s) = Some p" and
    pre: "actionPrecondition p (foundations s) a"
    by (auto simp: precondition_def split: option.splits)
  from assms(1) have
    "list_all (\<lambda>f. cards f = [] \<or> suit_pile f = Some (suit (last (cards f)))) (foundations s)"
    by (simp add: orderly_def)
  from actionPrecondition_guardsOfCase[OF pre this] nf f show ?thesis
    by (simp add: guardsHold_def)
qed

lemma ascendingRun_recorded:
  "ascendingRun f \<Longrightarrow> cards f = [] \<or> suit_pile f = Some (suit (last (cards f)))"
  by (auto simp: ascendingRun_def list_all_iff split: option.splits)

lemma orderly_run_initNerts: "orderly (run (initNerts config rnd now) actions)"
proof -
  let ?init = "initNerts config rnd now" and ?now = "run (initNerts config rnd now) actions"
  have "list_all faceUpPiles (players ?now)"
    using faceUpPiles_initNerts by (rule run_faceUp)
  moreover have "list_all faceUpClosed (tableau p) \<and> (waste p = [] \<or> faceUp (last (waste p)))"
    if "faceUpPiles p" for p
  proof -
    from that have "list_all faceUpClosed (tableau p)"
      by (auto simp: list_all_iff faceUpPiles_def intro: all_faceUpClosed)
    moreover from that have "waste p = [] \<or> faceUp (last (waste p))"
      by (auto simp: faceUpPiles_def dest: list_all_last)
    ultimately show ?thesis by simp
  qed
  ultimately have pl: "list_all (\<lambda>p. list_all faceUpClosed (tableau p) \<and>
                    (waste p = [] \<or> faceUp (last (waste p)))) (players ?now)"
    unfolding list_all_iff by blast
  have "cards (foundations ?now ! n) = [] \<or>
        suit_pile (foundations ?now ! n) = Some (suit (last (cards (foundations ?now ! n))))"
    if "n < length (foundations ?now)" for n
  proof -
    from that have "n < length (foundations ?init)"
      by (simp add: length_foundations_run)
    then have "ascendingRun (foundations ?now ! n)"
      by (intro run_ascendingRun ascendingRun_initNerts)
    then show ?thesis by (rule ascendingRun_recorded)
  qed
  then have "list_all (\<lambda>f. cards f = [] \<or> suit_pile f = Some (suit (last (cards f))))
      (foundations ?now)"
    by (simp add: list_all_length)
  with pl show ?thesis by (simp add: orderly_def)
qed

section \<open>Bounds on the scores of a game\<close>

lemma foundationCards_push:
  assumes "n < length fs"
  shows "foundationCards (fs[n := pushFoundation (fs ! n) t]) = foundationCards fs + 1"
proof -
  have "foundationCards (fs[n := pushFoundation (fs ! n) t]) + length (cards (fs ! n)) =
      foundationCards fs + length (cards (pushFoundation (fs ! n) t))"
    unfolding foundationCards_def
    using sum_list_map_update[OF assms, of "\<lambda>f. length (cards f)" "pushFoundation (fs ! n) t"]
    by simp
  then show ?thesis by simp
qed

text \<open>A case adds at most twice as many points as it adds cards to the foundations.\<close>

lemma switch_case_points:
  assumes "switch_case player fs a = Some (p', fs', d, u)"
  shows "0 \<le> d \<and> int (foundationCards fs) \<le> int (foundationCards fs') \<and>
         d \<le> 2 * (int (foundationCards fs') - int (foundationCards fs))"
  using assms
proof (cases rule: switch_case_split)
  case (StockDraw x)
  from stock_draw_Some[OF StockDraw(2)] show ?thesis by simp
next
  case (WasteToTableau x i)
  from waste_to_tableau_Some[OF WasteToTableau(2)] show ?thesis by simp
next
  case (WasteToFoundation x i)
  from waste_to_foundation_Some[OF WasteToFoundation(2)] show ?thesis
    by (simp add: foundationCards_push)
next
  case (TableauToTableau x i j cid)
  from tableau_to_tableau_Some[OF TableauToTableau(2)] show ?thesis by auto
next
  case (TableauToFoundation x i j)
  from tableau_to_foundation_Some[OF TableauToFoundation(2)] show ?thesis
    by (simp add: foundationCards_push)
next
  case (NertsToTableau x i)
  from nerts_to_tableau_Some[OF NertsToTableau(2)] show ?thesis by simp
next
  case (NertsToFoundation x i)
  from nerts_to_foundation_Some[OF NertsToFoundation(2)] show ?thesis
    by (simp add: foundationCards_push)
qed

lemma nth_le_sum_list_nonneg:
  fixes xs :: "int list"
  assumes "\<forall>x\<in>set xs. 0 \<le> x" "j < length xs"
  shows "xs ! j \<le> sum_list xs"
  using assms
proof (induction xs arbitrary: j)
  case Nil
  then show ?case by simp
next
  case (Cons x xs)
  have nn: "0 \<le> sum_list xs" using Cons.prems(1) by (simp add: sum_list_nonneg)
  show ?case
  proof (cases j)
    case 0
    with nn show ?thesis by simp
  next
    case (Suc n)
    with Cons.prems have "xs ! n \<le> sum_list xs" by (intro Cons.IH) simp_all
    with Suc Cons.prems(1) show ?thesis by simp
  qed
qed

text \<open>
  Along a game no score is negative and the scores together are at most twice the
  number of cards on the foundations.
\<close>

lemma apply_points:
  assumes "list_all (\<lambda>p. 0 \<le> score p) (players s)"
    and "sum_list (map score (players s)) \<le> 2 * int (foundationCards (foundations s))"
  shows "list_all (\<lambda>p. 0 \<le> score p) (players (applyNertsAction s a)) \<and>
         sum_list (map score (players (applyNertsAction s a)))
           \<le> 2 * int (foundationCards (foundations (applyNertsAction s a)))"
proof (cases "accepted s a")
  case False
  then show ?thesis using assms by (simp add: not_accepted)
next
  case True
  then obtain k p' fs' d where
    k: "k < length (players s)" and
    sw: "switch_case (players s ! k) (foundations s) a = Some (p', fs', d, True)" and
    ap: "applyNertsAction s a =
       s\<lparr>players := (players s)[k := p'\<lparr>score := score p' + d\<rparr>], foundations := fs',
         finished := (nertsPile p' = []),
         winnerId := (if nertsPile p' = [] then Some (id_player p') else winnerId s)\<rparr>"
    by (rule acceptedE)
  from switch_case_frame[OF sw] have sc: "score p' = score (players s ! k)" by simp
  from switch_case_points[OF sw] have d: "0 \<le> d"
    "d \<le> 2 * (int (foundationCards fs') - int (foundationCards (foundations s)))"
    by simp_all
  from assms(1) k have "0 \<le> score (players s ! k)" by (simp add: list_all_length)
  with d(1) sc have "0 \<le> score (p'\<lparr>score := score p' + d\<rparr>)" by simp
  with assms(1) have nonneg: "list_all (\<lambda>p. 0 \<le> score p) (players (applyNertsAction s a))"
    by (simp add: ap list_all_update)
  have "sum_list (map score ((players s)[k := p'\<lparr>score := score p' + d\<rparr>]))
          + score (players s ! k) =
        sum_list (map score (players s)) + score (p'\<lparr>score := score p' + d\<rparr>)"
    using k by (rule sum_list_map_update)
  then have "sum_list (map score (players (applyNertsAction s a))) =
      sum_list (map score (players s)) + d"
    by (simp add: ap sc)
  with assms(2) d(2) have "sum_list (map score (players (applyNertsAction s a)))
      \<le> 2 * int (foundationCards (foundations (applyNertsAction s a)))"
    by (simp add: ap)
  with nonneg show ?thesis by simp
qed

lemma run_points:
  assumes "list_all (\<lambda>p. 0 \<le> score p) (players s)"
    and "sum_list (map score (players s)) \<le> 2 * int (foundationCards (foundations s))"
  shows "list_all (\<lambda>p. 0 \<le> score p) (players (run s as)) \<and>
         sum_list (map score (players (run s as)))
           \<le> 2 * int (foundationCards (foundations (run s as)))"
  using assms
proof (induction as arbitrary: s)
  case Nil
  then show ?case by simp
next
  case (Cons a as)
  from apply_points[OF Cons.prems, of a] Cons.IH[of "applyNertsAction s a"]
  show ?case by simp
qed

lemma score_dealPlayer: "score (dealPlayer js pid) = 0"
  by (simp add: dealPlayer_def Let_def)

lemma points_initNerts:
  "list_all (\<lambda>p. 0 \<le> score p) (players (initNerts config rnd now)) \<and>
   sum_list (map score (players (initNerts config rnd now))) = 0"
proof -
  have "sum_list (map (\<lambda>x. score (dealPlayer (rnd (fst x)) (snd x))) xs) = 0"
    for xs :: "(nat \<times> PlayerId) list"
    by (induction xs) (simp_all add: score_dealPlayer)
  then show ?thesis
    by (simp add: initNerts_def list_all_iff split_def comp_def score_dealPlayer)
qed

text \<open>In a game every score lies between 0 and 104 times the number of players.\<close>

lemma score_bounds_run:
  assumes "j < length (playerIds config)"
  shows "0 \<le> score (players (run (initNerts config rnd now) as) ! j) \<and>
         score (players (run (initNerts config rnd now) as) ! j)
           \<le> 104 * int (length (playerIds config))"
proof -
  let ?init = "initNerts config rnd now"
  let ?st = "run (initNerts config rnd now) as"
  from points_initNerts[of config rnd now]
  have "list_all (\<lambda>p. 0 \<le> score p) (players ?st) \<and>
      sum_list (map score (players ?st)) \<le> 2 * int (foundationCards (foundations ?st))"
    by (intro run_points) simp_all
  then have nonneg: "\<forall>x\<in>set (map score (players ?st)). 0 \<le> x"
    and total: "sum_list (map score (players ?st)) \<le> 2 * int (foundationCards (foundations ?st))"
    by (simp_all add: list_all_iff)
  have j: "j < length (map score (players ?st))"
    using assms by (simp add: length_players_run length_players_initNerts)
  from nth_le_sum_list_nonneg[OF nonneg j] j
  have le: "score (players ?st ! j) \<le> sum_list (map score (players ?st))" by simp
  have "totalCards ?st = 52 * length (playerIds config)"
  proof -
    have "stateBag ?st = stateBag ?init"
      using run_bag[OF descendingTableaus_initNerts] by simp
    then have "size (stateBag ?st) = size (stateBag ?init)" by simp
    then show ?thesis by (simp add: size_stateBag totalCards_initNerts)
  qed
  then have "foundationCards (foundations ?st) \<le> 52 * length (playerIds config)"
    by (simp add: totalCards_def)
  then have "2 * int (foundationCards (foundations ?st)) \<le> 104 * int (length (playerIds config))"
    by simp
  with le total have "score (players ?st ! j) \<le> 104 * int (length (playerIds config))"
    by linarith
  moreover from nonneg j have "0 \<le> score (players ?st ! j)"
    by (metis length_map nth_map nth_mem)
  ultimately show ?thesis by simp
qed

section \<open>Properties of the reducer\<close>

lemmas example_defs = exampleDuel_def exampleMidgame_def exampleCovered_def
  exampleAscending_def examplePosition_def exampleCard_def

lemmas reducer_defs = applyNertsAction_def finalize_def stock_draw_def waste_to_tableau_def
  waste_to_foundation_def tableau_to_tableau_def tableau_to_foundation_def nerts_to_tableau_def
  nerts_to_foundation_def canPlaceOnTableau_def canPlaceOnFoundation_def pushFoundation_def
  revealTop_def makeFaceUp_def isRedSuit_def nth_js_def top_js_def getRankValue_simps
  accepted_def actingIndex_def

text \<open>
  Why conservation needs the descending columns: on a column that is not descending,
  \<open>tableau_to_tableau\<close> with equal source and destination index can be accepted, and
  then the run is appended to the whole column, which was read before the source was
  shortened. The column grows from two cards to four.
\<close>

lemma same_column_move_duplicates:
  "accepted exampleAscending (TableauToTableau ''p1'' 0 0 ''q'') \<and>
   tableau (players (applyNertsAction exampleAscending (TableauToTableau ''p1'' 0 0 ''q'')) ! 0) =
     [[exampleCard Hearts RQ ''q'' True, exampleCard Spades RK ''k'' True,
       exampleCard Hearts RQ ''q'' True, exampleCard Spades RK ''k'' True]] \<and>
   totalCards (applyNertsAction exampleAscending (TableauToTableau ''p1'' 0 0 ''q'')) =
     totalCards exampleAscending + 2"
  by (simp add: example_defs reducer_defs totalCards_def playerCards_def foundationCards_def)

text \<open>
  C1, as stated, fails on states that are not orderly. In \<open>exampleCovered\<close> the run moved
  by \<open>tableau_to_tableau\<close> contains a face-down card; in \<open>exampleMisfiled\<close> the Two of
  hearts goes on a slot that records spades; in \<open>exampleHiddenWaste\<close> the moved top of
  the waste is face-down. In each position the precondition of the action table is not met
  and the action is applied: the returned state differs from the input.
\<close>

theorem C1_illegal_action_applied:
  "\<not> precondition exampleCovered (TableauToTableau ''p1'' 0 1 ''q'') \<and>
   applyNertsAction exampleCovered (TableauToTableau ''p1'' 0 1 ''q'') \<noteq> exampleCovered \<and>
   \<not> precondition exampleMisfiled (WasteToFoundation ''p1'' 0) \<and>
   applyNertsAction exampleMisfiled (WasteToFoundation ''p1'' 0) \<noteq> exampleMisfiled \<and>
   score (players (applyNertsAction exampleMisfiled (WasteToFoundation ''p1'' 0)) ! 0) = 1 \<and>
   \<not> precondition exampleHiddenWaste (WasteToTableau ''p1'' 0) \<and>
   applyNertsAction exampleHiddenWaste (WasteToTableau ''p1'' 0) \<noteq> exampleHiddenWaste"
proof -
  have c1: "\<not> precondition exampleCovered (TableauToTableau ''p1'' 0 1 ''q'')"
    by (simp add: precondition_def example_defs nth_js_def placeableOnTableau_def
        getRankValue_simps isRedSuit_def)
  have c2: "tableau (players (applyNertsAction exampleCovered
        (TableauToTableau ''p1'' 0 1 ''q'')) ! 0) \<noteq> tableau (players exampleCovered ! 0)"
    by (simp add: example_defs reducer_defs)
  have m1: "\<not> precondition exampleMisfiled (WasteToFoundation ''p1'' 0)"
    by (simp add: precondition_def exampleMisfiled_def exampleCard_def nth_js_def
        foundationRule_def)
  have m2: "score (players (applyNertsAction exampleMisfiled (WasteToFoundation ''p1'' 0)) ! 0)
      = 1"
    by (simp add: exampleMisfiled_def exampleCard_def reducer_defs)
  have m3: "score (players exampleMisfiled ! 0) = 0"
    by (simp add: exampleMisfiled_def)
  have h1: "\<not> precondition exampleHiddenWaste (WasteToTableau ''p1'' 0)"
    by (simp add: precondition_def exampleHiddenWaste_def exampleCard_def)
  have h2: "waste (players (applyNertsAction exampleHiddenWaste (WasteToTableau ''p1'' 0)) ! 0)
      \<noteq> waste (players exampleHiddenWaste ! 0)"
    by (simp add: exampleHiddenWaste_def exampleCard_def reducer_defs)
  from c2 have c3: "applyNertsAction exampleCovered (TableauToTableau ''p1'' 0 1 ''q'')
      \<noteq> exampleCovered"
    by auto
  from m2 m3 have m4: "applyNertsAction exampleMisfiled (WasteToFoundation ''p1'' 0)
      \<noteq> exampleMisfiled"
    by auto
  from h2 have h3: "applyNertsAction exampleHiddenWaste (WasteToTableau ''p1'' 0)
      \<noteq> exampleHiddenWaste"
    by auto
  from c1 c3 m1 m4 m2 h1 h3 show ?thesis by simp
qed

text \<open>
  C1, amended. In an orderly state (the top of every waste is face-up, no face-down
  tableau card lies above a face-up one, every non-empty foundation slot records the suit
  of its top card) an action whose precondition is not met returns the input state itself.
  In every state an action returns the input state when the game is finished, the player
  id is unknown, or a named tableau or foundation index is out of range. In every state
  and for every action the reducer with its possible failures returns a value and raises
  no error, and that value is the reducer's result. Every state reached from a deal is
  orderly.
\<close>

theorem C1_illegal_action_is_noop_when_orderly:
  "(orderly s \<and> \<not> precondition s a \<longrightarrow> applyNertsAction s a = s) \<and>
   (\<not> addressable s a \<longrightarrow> applyNertsAction s a = s) \<and>
   applyNertsActionE s a = Inr (applyNertsAction s a) \<and>
   orderly (run (initNerts config rnd now) actions)"
proof (intro conjI impI)
  assume "orderly s \<and> \<not> precondition s a"
  then have "\<not> guardsHold s a"
    using orderly_guards_precondition[of s a] by blast
  then have "\<not> accepted s a"
    using accepted_guards[of s a] by blast
  then show "applyNertsAction s a = s" by (rule not_accepted)
next
  assume "\<not> addressable s a"
  then have "\<not> accepted s a"
    using guardsHold_addressable[of s a] accepted_guards[of s a] by blast
  then show "applyNertsAction s a = s" by (rule not_accepted)
next
  show "applyNertsActionE s a = Inr (applyNertsAction s a)"
    by (rule applyNertsActionE_eq)
next
  show "orderly (run (initNerts config rnd now) actions)"
    by (rule orderly_run_initNerts)
qed

theorem C1_illegal_action_is_noop_when_orderly_witness:
  "orderly exampleTwelveMoves \<and>
   \<not> precondition exampleTwelveMoves (NertsToTableau ''a'' 0) \<and>
   applyNertsAction exampleTwelveMoves (NertsToTableau ''a'' 0) = exampleTwelveMoves \<and>
   \<not> addressable exampleTwelveMoves (NertsToTableau ''a'' 4) \<and>
   applyNertsAction exampleTwelveMoves (NertsToTableau ''a'' 4) = exampleTwelveMoves \<and>
   applyNertsActionE exampleTwelveMoves (NertsToTableau ''a'' 4) = Inr exampleTwelveMoves"
proof -
  note thm0 = C1_illegal_action_is_noop_when_orderly[of exampleTwelveMoves
      "NertsToTableau ''a'' 0" "\<lparr>playerIds = [''a'']\<rparr>"
      "\<lambda>k i. if 7 \<le> i \<and> i \<le> 12 then 12 - i else i" 0
      "replicate 12 (NertsToFoundation ''a'' 0)"]
  note thm4 = C1_illegal_action_is_noop_when_orderly[of exampleTwelveMoves
      "NertsToTableau ''a'' 4"]
  have o: "orderly exampleTwelveMoves"
    using thm0 by (simp add: exampleTwelveMoves_def exampleQuickDeal_def)
  have p: "\<not> precondition exampleTwelveMoves (NertsToTableau ''a'' 0)"
    by code_simp
  have q: "\<not> addressable exampleTwelveMoves (NertsToTableau ''a'' 4)"
    by code_simp
  from thm0 o p have r0: "applyNertsAction exampleTwelveMoves (NertsToTableau ''a'' 0)
      = exampleTwelveMoves"
    by blast
  from thm4 q have r4: "applyNertsAction exampleTwelveMoves (NertsToTableau ''a'' 4)
      = exampleTwelveMoves"
    by blast
  from thm4 r4 have e4: "applyNertsActionE exampleTwelveMoves (NertsToTableau ''a'' 4)
      = Inr exampleTwelveMoves"
    by simp
  from o p r0 q r4 e4 show ?thesis by simp
qed

text \<open>
  C2. When an accepted action leaves the acting player's Nerts pile empty, the returned
  state is finished and its winner is the acting player, in that same transition. A deal
  has no winner, and from any state whose winner, if set, comes with \<open>finished\<close>, a
  winner once set stays the winner along every further action sequence.
\<close>

theorem C2_win_is_atomic_and_exclusive:
  "(accepted s a \<and> actingIndex s a = Some k \<and>
      nertsPile (players (applyNertsAction s a) ! k) = [] \<longrightarrow>
      finished (applyNertsAction s a) \<and>
      winnerId (applyNertsAction s a) = Some (playerId a) \<and>
      id_player (players s ! k) = playerId a) \<and>
   winnerId (initNerts config rnd now) = None \<and>
   ((winnerId s \<noteq> None \<longrightarrow> finished s) \<and> winnerId (run s as) = Some w \<longrightarrow>
      winnerId (run s (as @ bs)) = Some w)"
proof (intro conjI impI)
  assume h: "accepted s a \<and> actingIndex s a = Some k \<and>
      nertsPile (players (applyNertsAction s a) ! k) = []"
  then show "finished (applyNertsAction s a)"
    and "winnerId (applyNertsAction s a) = Some (playerId a)"
    using win_apply[of s a k] by simp_all
  from h show "id_player (players s ! k) = playerId a"
    using findIndex_Some[of "\<lambda>p. id_player p = playerId a" "players s" k]
    by (simp add: actingIndex_def)
next
  show "winnerId (initNerts config rnd now) = None"
    by (simp add: initNerts_def)
next
  assume "(winnerId s \<noteq> None \<longrightarrow> finished s) \<and> winnerId (run s as) = Some w"
  then show "winnerId (run s (as @ bs)) = Some w"
    using winner_stable[of s as w bs] by simp
qed

theorem C2_win_is_atomic_and_exclusive_witness:
  "accepted exampleTwelveMoves (NertsToFoundation ''a'' 0) \<and>
   actingIndex exampleTwelveMoves (NertsToFoundation ''a'' 0) = Some 0 \<and>
   nertsPile (players (applyNertsAction exampleTwelveMoves (NertsToFoundation ''a'' 0)) ! 0) = [] \<and>
   finished (applyNertsAction exampleTwelveMoves (NertsToFoundation ''a'' 0)) \<and>
   winnerId (applyNertsAction exampleTwelveMoves (NertsToFoundation ''a'' 0)) = Some ''a'' \<and>
   winnerId exampleTwelveMoves = None \<and>
   winnerId (run exampleTwelveMoves [NertsToFoundation ''a'' 0]) = Some ''a'' \<and>
   winnerId (run exampleTwelveMoves ([NertsToFoundation ''a'' 0] @ [StockDraw ''a''])) = Some ''a''"
proof -
  have a: "accepted exampleTwelveMoves (NertsToFoundation ''a'' 0)"
    by code_simp
  have k: "actingIndex exampleTwelveMoves (NertsToFoundation ''a'' 0) = Some 0"
    by code_simp
  have n: "nertsPile (players (applyNertsAction exampleTwelveMoves (NertsToFoundation ''a'' 0)) ! 0)
      = []"
    by code_simp
  have w0: "winnerId exampleTwelveMoves = None"
    by code_simp
  have w1: "winnerId (run exampleTwelveMoves [NertsToFoundation ''a'' 0]) = Some ''a''"
    by code_simp
  from C2_win_is_atomic_and_exclusive[of exampleTwelveMoves "NertsToFoundation ''a'' 0" 0
      _ _ _ "[NertsToFoundation ''a'' 0]" "''a''" "[StockDraw ''a'']"] a k n w0 w1
  show ?thesis by simp
qed

text \<open>
  C8. Scores of the source are doubles; the statement is made where the model's integer
  addition is the source's addition, that is for scores whose value and sum lie in the
  range of exactly represented integers. There an accepted action changes the acting
  player's score by the amount in the score column of the action table: 1 for
  \<open>waste_to_foundation\<close> and \<open>tableau_to_foundation\<close>, 2 for \<open>nerts_to_foundation\<close>, 0
  for the four other actions. In a game for fewer than \<open>2 ^ 32\<close> players (the bound on
  the length of an array) every score stays non-negative and inside that range, with
  room for the largest delta, and no player's score decreases along any further action
  sequence.
\<close>

theorem C8_score_deltas_exact:
  "(accepted s a \<and> actingIndex s a = Some k \<and> exactScore (score (players s ! k)) \<and>
      exactScore (score (players s ! k) + scoreOf a) \<longrightarrow>
      score (players (applyNertsAction s a) ! k) = score (players s ! k) + scoreOf a) \<and>
   (length (playerIds config) < 2 ^ 32 \<and> j < length (playerIds config) \<longrightarrow>
      (let s1 = run (initNerts config rnd now) as in
         0 \<le> score (players s1 ! j) \<and>
         exactScore (score (players s1 ! j)) \<and> exactScore (score (players s1 ! j) + 2) \<and>
         score (players s1 ! j) \<le> score (players (run s1 bs) ! j)))"
proof (intro conjI impI)
  assume "accepted s a \<and> actingIndex s a = Some k \<and> exactScore (score (players s ! k)) \<and>
      exactScore (score (players s ! k) + scoreOf a)"
  then show "score (players (applyNertsAction s a) ! k) = score (players s ! k) + scoreOf a"
    using acting_score_apply[of s a k] by simp
next
  assume h: "length (playerIds config) < 2 ^ 32 \<and> j < length (playerIds config)"
  let ?st = "run (initNerts config rnd now) as"
  from h have n: "int (length (playerIds config)) < 4294967296" by simp
  from h score_bounds_run[of j config rnd now as]
  have lo: "0 \<le> score (players ?st ! j)"
    and hi: "score (players ?st ! j) \<le> 104 * int (length (playerIds config))"
    by simp_all
  from hi n have "score (players ?st ! j) + 2 \<le> 9007199254740992" by linarith
  with lo have "exactScore (score (players ?st ! j))" "exactScore (score (players ?st ! j) + 2)"
    by (simp_all add: exactScore_def)
  moreover have "score (players ?st ! j) \<le> score (players (run ?st bs) ! j)"
    by (rule score_run_mono)
  ultimately show "let s1 = run (initNerts config rnd now) as in
         0 \<le> score (players s1 ! j) \<and>
         exactScore (score (players s1 ! j)) \<and> exactScore (score (players s1 ! j) + 2) \<and>
         score (players s1 ! j) \<le> score (players (run s1 bs) ! j)"
    using lo by (simp add: Let_def)
qed

theorem C8_score_deltas_exact_witness:
  "accepted exampleTwelveMoves (NertsToFoundation ''a'' 0) \<and>
   actingIndex exampleTwelveMoves (NertsToFoundation ''a'' 0) = Some 0 \<and>
   score (players exampleTwelveMoves ! 0) = 24 \<and>
   exactScore 24 \<and> exactScore (24 + 2) \<and>
   score (players (applyNertsAction exampleTwelveMoves (NertsToFoundation ''a'' 0)) ! 0) = 26 \<and>
   length (playerIds \<lparr>playerIds = [''a'']\<rparr>) < 2 ^ 32 \<and>
   0 < length (playerIds \<lparr>playerIds = [''a'']\<rparr>) \<and>
   exactScore (score (players exampleTwelveMoves ! 0) + 2) \<and>
   score (players exampleTwelveMoves ! 0)
     \<le> score (players (run exampleTwelveMoves [NertsToFoundation ''a'' 0, StockDraw ''a'']) ! 0)"
proof -
  note inst = C8_score_deltas_exact[of exampleTwelveMoves "NertsToFoundation ''a'' 0" 0
      "\<lparr>playerIds = [''a'']\<rparr>" 0
      "\<lambda>k i. if 7 \<le> i \<and> i \<le> 12 then 12 - i else i" 0
      "replicate 12 (NertsToFoundation ''a'' 0)"
      "[NertsToFoundation ''a'' 0, StockDraw ''a'']"]
  have a: "accepted exampleTwelveMoves (NertsToFoundation ''a'' 0)"
    by code_simp
  have k: "actingIndex exampleTwelveMoves (NertsToFoundation ''a'' 0) = Some 0"
    by code_simp
  have v: "score (players exampleTwelveMoves ! 0) = 24"
    by code_simp
  have e: "exactScore 24" "exactScore (24 + 2)"
    by (simp_all add: exactScore_def)
  have l: "length (playerIds \<lparr>playerIds = [''a'']\<rparr>) < 2 ^ 32"
    "0 < length (playerIds \<lparr>playerIds = [''a'']\<rparr>)"
    by simp_all
  from inst a k v e have s26:
    "score (players (applyNertsAction exampleTwelveMoves (NertsToFoundation ''a'' 0)) ! 0) = 26"
    by simp
  from inst l have "exactScore (score (players exampleTwelveMoves ! 0) + 2) \<and>
      score (players exampleTwelveMoves ! 0)
        \<le> score (players (run exampleTwelveMoves
              [NertsToFoundation ''a'' 0, StockDraw ''a'']) ! 0)"
    by (simp add: Let_def exampleTwelveMoves_def exampleQuickDeal_def)
  with a k v e l s26 show ?thesis by simp
qed

text \<open>
  C10. An action leaves \<open>startedAt\<close> and the number of players unchanged, and every
  player other than the one at the acting index keeps the same record (id, Nerts pile,
  tableau, stock, waste and score).
\<close>

theorem C10_other_players_untouched:
  "startedAt (applyNertsAction s a) = startedAt s \<and>
   length (players (applyNertsAction s a)) = length (players s) \<and>
   (j < length (players s) \<and> actingIndex s a \<noteq> Some j \<longrightarrow>
      players (applyNertsAction s a) ! j = players s ! j)"
  using startedAt_apply[of s a] length_players_apply[of s a] other_player_apply[of s a j]
  by simp

theorem C10_other_players_untouched_witness:
  "1 < length (players exampleDuel) \<and>
   actingIndex exampleDuel (NertsToFoundation ''p1'' 0) \<noteq> Some 1 \<and>
   accepted exampleDuel (NertsToFoundation ''p1'' 0) \<and>
   players (applyNertsAction exampleDuel (NertsToFoundation ''p1'' 0)) ! 1 =
     players exampleDuel ! 1"
proof -
  have l: "1 < length (players exampleDuel)"
    by (simp add: example_defs)
  have k: "actingIndex exampleDuel (NertsToFoundation ''p1'' 0) \<noteq> Some 1"
    by (simp add: example_defs actingIndex_def)
  have a: "accepted exampleDuel (NertsToFoundation ''p1'' 0)"
    by (simp add: example_defs reducer_defs)
  from C10_other_players_untouched[of exampleDuel "NertsToFoundation ''p1'' 0" 1] l k a
  show ?thesis by simp
qed

text \<open>
  C6. \<open>stock_draw\<close> for a player that resolves, in a game in progress. With a
  non-empty stock of \<open>n\<close> cards, the last \<open>m = min 3 n\<close> cards leave the stock and are
  appended to the waste face-up, the top of the stock first. With an empty stock and a
  non-empty waste, the stock becomes the reversed waste, every card face-down, and the
  waste becomes empty. With both empty, the state is returned unchanged. The Nerts pile,
  the tableau and the foundations stay as they are in each case.
\<close>

theorem C6_stock_draw:
  assumes "\<not> finished s" and "actingIndex s (StockDraw pid) = Some k"
  shows "let p = players s ! k;
             s' = applyNertsAction s (StockDraw pid);
             p' = players s' ! k;
             n = length (stock p);
             m = min 3 n
         in (stock p \<noteq> [] \<longrightarrow>
               stock p' = take (n - m) (stock p) \<and>
               waste p' = waste p @ map makeFaceUp (rev (drop (n - m) (stock p))) \<and>
               length (waste p') = length (waste p) + m \<and>
               list_all faceUp (drop (length (waste p)) (waste p'))) \<and>
            (stock p = [] \<and> waste p \<noteq> [] \<longrightarrow>
               stock p' = map (\<lambda>c. c\<lparr>faceUp := False\<rparr>) (rev (waste p)) \<and> waste p' = []) \<and>
            (stock p = [] \<and> waste p = [] \<longrightarrow> s' = s) \<and>
            nertsPile p' = nertsPile p \<and> tableau p' = tableau p \<and> score p' = score p \<and>
            foundations s' = foundations s"
proof -
  define p where "p = players s ! k"
  have k: "k < length (players s)"
    using assms(2) findIndex_Some[of "\<lambda>q. id_player q = pid" "players s" k]
    by (simp add: actingIndex_def)
  have ap: "applyNertsAction s (StockDraw pid) =
      (case stock_draw p (foundations s) of
         None \<Rightarrow> s
       | Some (p', fs', d, u) \<Rightarrow> finalize s k p' fs' d u)"
    using assms by (simp add: applyNertsAction_def actingIndex_def p_def)
  consider (draw) "stock p \<noteq> []" | (recycle) "stock p = []" "waste p \<noteq> []"
    | (idle) "stock p = []" "waste p = []"
    by blast
  then show ?thesis
  proof cases
    case draw
    have "applyNertsAction s (StockDraw pid) =
        finalize s k (drawLoop (min 3 (length (stock p))) p) (foundations s) 0 True"
      using draw by (simp add: ap stock_draw_def)
    then have "players (applyNertsAction s (StockDraw pid)) ! k =
          drawLoop (min 3 (length (stock p))) p"
        and "foundations (applyNertsAction s (StockDraw pid)) = foundations s"
      using k by (simp_all add: finalize_def Let_def)
    then show ?thesis
      using draw unfolding p_def[symmetric]
      by (simp add: Let_def drawLoop_eq list_all_iff makeFaceUp_def)
  next
    case recycle
    have "applyNertsAction s (StockDraw pid) =
        finalize s k (p\<lparr>stock := map (\<lambda>c. c\<lparr>faceUp := False\<rparr>) (rev (waste p)), waste := []\<rparr>)
          (foundations s) 0 True"
      using recycle by (simp add: ap stock_draw_def)
    then have "players (applyNertsAction s (StockDraw pid)) ! k =
          p\<lparr>stock := map (\<lambda>c. c\<lparr>faceUp := False\<rparr>) (rev (waste p)), waste := []\<rparr>"
        and "foundations (applyNertsAction s (StockDraw pid)) = foundations s"
      using k by (simp_all add: finalize_def Let_def)
    then show ?thesis
      using recycle unfolding p_def[symmetric] by (simp add: Let_def)
  next
    case idle
    then have "stock_draw p (foundations s) = Some (p, foundations s, 0, False)"
      by (simp add: stock_draw_def)
    then have "applyNertsAction s (StockDraw pid) = s"
      by (simp add: ap finalize_def)
    then show ?thesis
      using idle unfolding p_def[symmetric] by (simp add: Let_def p_def)
  qed
qed

theorem C6_stock_draw_witness:
  "\<not> finished exampleMidgame \<and> actingIndex exampleMidgame (StockDraw ''p1'') = Some 0 \<and>
   stock (players exampleMidgame ! 0) \<noteq> [] \<and>
   stock (players (applyNertsAction exampleMidgame (StockDraw ''p1'')) ! 0) =
     [exampleCard Clubs R9 ''s0'' False] \<and>
   waste (players (applyNertsAction exampleMidgame (StockDraw ''p1'')) ! 0) =
     [exampleCard Spades RJ ''w0'' True, exampleCard Hearts R2 ''s3'' True,
      exampleCard Spades R8 ''s2'' True, exampleCard Diamonds R3 ''s1'' True]"
proof -
  have f: "\<not> finished exampleMidgame"
    by (simp add: example_defs)
  have k: "actingIndex exampleMidgame (StockDraw ''p1'') = Some 0"
    by (simp add: example_defs actingIndex_def)
  have n: "stock (players exampleMidgame ! 0) \<noteq> []"
    by (simp add: example_defs)
  have st: "stock (players exampleMidgame ! 0) =
      [exampleCard Clubs R9 ''s0'' False, exampleCard Diamonds R3 ''s1'' False,
       exampleCard Spades R8 ''s2'' False, exampleCard Hearts R2 ''s3'' False]"
    and wa: "waste (players exampleMidgame ! 0) = [exampleCard Spades RJ ''w0'' True]"
    by (simp_all add: exampleMidgame_def examplePosition_def)
  from C6_stock_draw[OF f k] n
  have "stock (players (applyNertsAction exampleMidgame (StockDraw ''p1'')) ! 0) =
      take (length (stock (players exampleMidgame ! 0))
            - min 3 (length (stock (players exampleMidgame ! 0))))
        (stock (players exampleMidgame ! 0))"
    and "waste (players (applyNertsAction exampleMidgame (StockDraw ''p1'')) ! 0) =
      waste (players exampleMidgame ! 0) @
      map makeFaceUp (rev (drop (length (stock (players exampleMidgame ! 0))
            - min 3 (length (stock (players exampleMidgame ! 0))))
        (stock (players exampleMidgame ! 0))))"
    by (simp_all add: Let_def)
  then show ?thesis
    using f k n by (simp add: st wa makeFaceUp_def exampleCard_def)
qed

text \<open>
  C5. Tableau placement, for the acting player \<open>p\<close>. An accepted \<open>waste_to_tableau\<close>
  or \<open>tableau_to_tableau\<close> places a card that satisfies the general rule on the
  destination column: only a King on an empty column, and on a non-empty column only a
  card of the other colour whose rank value is one less than that of the column's top.
  An accepted \<open>nerts_to_tableau\<close> satisfies the same rule on a non-empty column, and a
  face-up top of the Nerts pile of any rank is accepted on an empty column.
\<close>

theorem C5_tableau_placement:
  assumes "\<not> finished s" and "actingIndex s a = Some k"
  shows "let p = players s ! k in
    (\<forall>pid i. a = WasteToTableau pid i \<and> accepted s a \<longrightarrow>
       (\<exists>column t. nth_js (tableau p) i = Some column \<and> top_js (waste p) = Some t \<and>
          (column = [] \<longrightarrow> rank t = RK) \<and>
          (column \<noteq> [] \<longrightarrow> isRedSuit (suit t) \<noteq> isRedSuit (suit (last column)) \<and>
             getRankValue (rank t) = getRankValue (rank (last column)) - 1))) \<and>
    (\<forall>pid i j cid. a = TableauToTableau pid i j cid \<and> accepted s a \<longrightarrow>
       (\<exists>source column idx t. nth_js (tableau p) i = Some source \<and>
          nth_js (tableau p) j = Some column \<and>
          findIndex (\<lambda>c. id_card c = cid) source = Some idx \<and> nth_js source (int idx) = Some t \<and>
          (column = [] \<longrightarrow> rank t = RK) \<and>
          (column \<noteq> [] \<longrightarrow> isRedSuit (suit t) \<noteq> isRedSuit (suit (last column)) \<and>
             getRankValue (rank t) = getRankValue (rank (last column)) - 1))) \<and>
    (\<forall>pid i. a = NertsToTableau pid i \<and> accepted s a \<longrightarrow>
       (\<exists>column t. nth_js (tableau p) i = Some column \<and> top_js (nertsPile p) = Some t \<and>
          (column \<noteq> [] \<longrightarrow> isRedSuit (suit t) \<noteq> isRedSuit (suit (last column)) \<and>
             getRankValue (rank t) = getRankValue (rank (last column)) - 1))) \<and>
    (\<forall>pid i t. a = NertsToTableau pid i \<and> nth_js (tableau p) i = Some [] \<and>
       top_js (nertsPile p) = Some t \<and> faceUp t \<longrightarrow> accepted s a)"
proof -
  define p where "p = players s ! k"
  have waste: "\<exists>column t. nth_js (tableau p) i = Some column \<and> top_js (waste p) = Some t \<and>
          (column = [] \<longrightarrow> rank t = RK) \<and>
          (column \<noteq> [] \<longrightarrow> isRedSuit (suit t) \<noteq> isRedSuit (suit (last column)) \<and>
             getRankValue (rank t) = getRankValue (rank (last column)) - 1)"
    if "a = WasteToTableau pid i" "accepted s a" for pid i
  proof -
    from that(2) assms(2) obtain p' fs' d where
      "switch_case p (foundations s) a = Some (p', fs', d, True)"
      unfolding p_def by (rule accepted_switch)
    with that(1) have "waste_to_tableau p (foundations s) i = Some (p', fs', d, True)" by simp
    from waste_to_tableau_Some[OF this] show ?thesis
      by (simp add: nth_js_in_range top_js_eq placeableOnTableau_def split: if_splits)
  qed
  have tab: "\<exists>source column idx t. nth_js (tableau p) i = Some source \<and>
          nth_js (tableau p) j = Some column \<and>
          findIndex (\<lambda>c. id_card c = cid) source = Some idx \<and> nth_js source (int idx) = Some t \<and>
          (column = [] \<longrightarrow> rank t = RK) \<and>
          (column \<noteq> [] \<longrightarrow> isRedSuit (suit t) \<noteq> isRedSuit (suit (last column)) \<and>
             getRankValue (rank t) = getRankValue (rank (last column)) - 1)"
    if "a = TableauToTableau pid i j cid" "accepted s a" for pid i j cid
  proof -
    from that(2) assms(2) obtain p' fs' d where
      "switch_case p (foundations s) a = Some (p', fs', d, True)"
      unfolding p_def by (rule accepted_switch)
    with that(1) have "tableau_to_tableau p (foundations s) i j cid = Some (p', fs', d, True)"
      by simp
    from tableau_to_tableau_Some[OF this]
    obtain idx where h: "0 \<le> i" "nat i < length (tableau p)" "0 \<le> j"
      "nat j < length (tableau p)"
      "findIndex (\<lambda>c. id_card c = cid) (tableau p ! nat i) = Some idx"
      "idx < length (tableau p ! nat i)"
      "faceUp (tableau p ! nat i ! idx)"
      "placeableOnTableau (tableau p ! nat j) (tableau p ! nat i ! idx)"
      by (elim exE conjE) (rule that)
    show ?thesis
      using h by (simp add: nth_js_in_range nth_js_nat placeableOnTableau_def split: if_splits)
  qed
  have nerts: "\<exists>column t. nth_js (tableau p) i = Some column \<and> top_js (nertsPile p) = Some t \<and>
          (column \<noteq> [] \<longrightarrow> isRedSuit (suit t) \<noteq> isRedSuit (suit (last column)) \<and>
             getRankValue (rank t) = getRankValue (rank (last column)) - 1)"
    if "a = NertsToTableau pid i" "accepted s a" for pid i
  proof -
    from that(2) assms(2) obtain p' fs' d where
      "switch_case p (foundations s) a = Some (p', fs', d, True)"
      unfolding p_def by (rule accepted_switch)
    with that(1) have "nerts_to_tableau p (foundations s) i = Some (p', fs', d, True)" by simp
    from nerts_to_tableau_Some[OF this] show ?thesis
      by (simp add: nth_js_in_range top_js_eq placeableFromNerts_def placeableOnTableau_def
          split: if_splits)
  qed
  have anyRank: "accepted s a"
    if "a = NertsToTableau pid i" "nth_js (tableau p) i = Some []"
      "top_js (nertsPile p) = Some t" "faceUp t" for pid i t
  proof -
    have "switch_case p (foundations s) a =
        Some (p\<lparr>nertsPile := revealTop (butlast (nertsPile p)),
                tableau := (tableau p)[nat i := [] @ [t]]\<rparr>, foundations s, 0, True)"
      using that by (simp add: nerts_to_tableau_def canPlaceOnTableau_None top_js_eq)
    with assms show ?thesis
      unfolding p_def by (rule accepted_intro)
  qed
  show ?thesis
    unfolding Let_def p_def[symmetric] using waste tab nerts anyRank by blast
qed

theorem C5_tableau_placement_witness:
  "\<not> finished exampleMidgame \<and>
   actingIndex exampleMidgame (NertsToTableau ''p1'' 2) = Some 0 \<and>
   nth_js (tableau (players exampleMidgame ! 0)) 2 = Some [] \<and>
   top_js (nertsPile (players exampleMidgame ! 0)) = Some (exampleCard Spades RA ''n1'' True) \<and>
   faceUp (exampleCard Spades RA ''n1'' True) \<and>
   accepted exampleMidgame (NertsToTableau ''p1'' 2)"
proof -
  have f: "\<not> finished exampleMidgame"
    by (simp add: example_defs)
  have k: "actingIndex exampleMidgame (NertsToTableau ''p1'' 2) = Some 0"
    by (simp add: example_defs actingIndex_def)
  have c: "nth_js (tableau (players exampleMidgame ! 0)) 2 = Some []"
    by (simp add: example_defs nth_js_def)
  have t: "top_js (nertsPile (players exampleMidgame ! 0)) =
      Some (exampleCard Spades RA ''n1'' True)"
    by (simp add: example_defs top_js_def nth_js_def)
  have u: "faceUp (exampleCard Spades RA ''n1'' True)"
    by (simp add: exampleCard_def)
  from C5_tableau_placement[OF f k] c t u
  have "accepted exampleMidgame (NertsToTableau ''p1'' 2)"
    unfolding Let_def by blast
  with f k c t u show ?thesis by simp
qed

text \<open>
  C3. In every state reached from a deal by any sequence of actions, the containers hold
  \<open>52\<close> cards per player in total, the number of players is that of the deal, and the
  bag of all cards is the bag of the deal: no action duplicates or drops a card.
\<close>

theorem C3_conservation:
  "totalCards (run (initNerts config rnd now) actions) = 52 * length (playerIds config) \<and>
   length (players (run (initNerts config rnd now) actions)) = length (playerIds config) \<and>
   stateBag (run (initNerts config rnd now) actions) = stateBag (initNerts config rnd now)"
proof -
  let ?s0 = "initNerts config rnd now"
  have bag: "stateBag (run ?s0 actions) = stateBag ?s0"
    using run_bag[OF descendingTableaus_initNerts] by simp
  then have "size (stateBag (run ?s0 actions)) = size (stateBag ?s0)" by simp
  then have "totalCards (run ?s0 actions) = 52 * length (playerIds config)"
    by (simp add: size_stateBag totalCards_initNerts)
  with bag show ?thesis
    by (simp add: length_players_run length_players_initNerts)
qed

theorem C3_conservation_witness:
  "totalCards exampleTwelveMoves = 52 \<and> length (players exampleTwelveMoves) = 1"
  using C3_conservation[of "\<lparr>playerIds = [''a'']\<rparr>"
      "\<lambda>k i. if 7 \<le> i \<and> i \<le> 12 then 12 - i else i" 0
      "replicate 12 (NertsToFoundation ''a'' 0)"]
  by (simp add: exampleTwelveMoves_def exampleQuickDeal_def)

text \<open>
  C4. In every state reached from a deal, every foundation slot is an ascending run: its
  cards have the rank values \<open>1, 2, ..., n\<close> and the suit recorded for the slot, which
  is unset exactly when the slot is empty. The slot accepts a card only if the card is an
  Ace (empty slot) or has the suit of the slot and of its top card and the rank value of
  the top plus one (non-empty slot). An action leaves the slot as it is or pushes one
  card that the slot accepts, and a suit once set is the slot's suit in every later state.
\<close>

theorem C4_foundation_slots:
  assumes "i < length (foundations (initNerts config rnd now))"
  shows "let s = run (initNerts config rnd now) actions; f = foundations s ! i in
     ascendingRun f \<and>
     (\<forall>c. canPlaceOnFoundation f c \<longrightarrow>
        (cards f = [] \<longrightarrow> rank c = RA) \<and>
        (cards f \<noteq> [] \<longrightarrow>
           suit c = suit (last (cards f)) \<and> suit_pile f = Some (suit c) \<and>
           getRankValue (rank c) = getRankValue (rank (last (cards f))) + 1)) \<and>
     (\<forall>a. slotStep f (foundations (applyNertsAction s a) ! i)) \<and>
     (\<forall>more x. suit_pile f = Some x \<longrightarrow> suit_pile (foundations (run s more) ! i) = Some x)"
proof -
  define s where "s = run (initNerts config rnd now) actions"
  define f where "f = foundations s ! i"
  have asc: "ascendingRun f"
    unfolding f_def s_def using assms by (intro run_ascendingRun ascendingRun_initNerts)
  have rule: "(cards f = [] \<longrightarrow> rank c = RA) \<and>
        (cards f \<noteq> [] \<longrightarrow>
           suit c = suit (last (cards f)) \<and> suit_pile f = Some (suit c) \<and>
           getRankValue (rank c) = getRankValue (rank (last (cards f))) + 1)"
    if "canPlaceOnFoundation f c" for c
  proof (cases "cards f = []")
    case True
    with that show ?thesis
      by (simp add: canPlaceOnFoundation_eq placeableOnFoundation_def)
  next
    case False
    with that have p: "suit c = suit (last (cards f))"
      "getRankValue (rank c) = getRankValue (rank (last (cards f))) + 1"
      by (simp_all add: canPlaceOnFoundation_eq placeableOnFoundation_def)
    from asc False obtain x where x: "suit_pile f = Some x" "list_all (\<lambda>c. suit c = x) (cards f)"
      by (auto simp: ascendingRun_def split: option.splits)
    from x(2) False have "suit (last (cards f)) = x" by (simp add: list_all_iff)
    with p x(1) False show ?thesis by simp
  qed
  have step: "slotStep f (foundations (applyNertsAction s a) ! i)" for a
    unfolding f_def by (rule apply_slot)
  have stable: "suit_pile (foundations (run s more) ! i) = Some x"
    if "suit_pile f = Some x" for more x
    using that unfolding f_def by (rule run_suit)
  from asc rule step stable show ?thesis
    unfolding Let_def s_def[symmetric] f_def[symmetric] by blast
qed

theorem C4_foundation_slots_witness:
  "0 < length (foundations (initNerts \<lparr>playerIds = [''a'']\<rparr> (\<lambda>k i. i) 0)) \<and>
   cards (foundations (run exampleDeal
      [TableauToFoundation ''a'' 0 0, TableauToFoundation ''a'' 1 0]) ! 0) \<noteq> [] \<and>
   ascendingRun (foundations (run exampleDeal
      [TableauToFoundation ''a'' 0 0, TableauToFoundation ''a'' 1 0]) ! 0) \<and>
   suit_pile (foundations (run exampleDeal
      [TableauToFoundation ''a'' 0 0, TableauToFoundation ''a'' 1 0]) ! 0) = Some Hearts \<and>
   suit_pile (foundations (run (run exampleDeal
      [TableauToFoundation ''a'' 0 0, TableauToFoundation ''a'' 1 0])
      [NertsToFoundation ''a'' 0, StockDraw ''a'']) ! 0) = Some Hearts"
proof -
  have l: "0 < length (foundations (initNerts \<lparr>playerIds = [''a'']\<rparr> (\<lambda>k i. i) 0))"
    by (simp add: initNerts_def)
  have c: "cards (foundations (run exampleDeal
      [TableauToFoundation ''a'' 0 0, TableauToFoundation ''a'' 1 0]) ! 0) \<noteq> []"
    by code_simp
  have h: "suit_pile (foundations (run exampleDeal
      [TableauToFoundation ''a'' 0 0, TableauToFoundation ''a'' 1 0]) ! 0) = Some Hearts"
    by code_simp
  from C4_foundation_slots[OF l, of "[TableauToFoundation ''a'' 0 0, TableauToFoundation ''a'' 1 0]"]
    l c h
  show ?thesis
    unfolding Let_def exampleDeal_def by blast
qed

text \<open>
  C7, as stated, fails: in \<open>exampleCovered\<close> the action \<open>tableau_to_tableau\<close> that names
  the face-up Queen of column 0 is accepted, and the moved run contains the face-down
  Jack that lies on it. The reducer tests only the first card of the run.
\<close>

theorem C7_run_with_face_down_card_accepted:
  "accepted exampleCovered (TableauToTableau ''p1'' 0 1 ''q'') \<and>
   movedRun (players exampleCovered ! 0) 0 ''q'' =
     [exampleCard Hearts RQ ''q'' True, exampleCard Spades RJ ''j'' False] \<and>
   \<not> list_all faceUp (movedRun (players exampleCovered ! 0) 0 ''q'') \<and>
   tableau (players (applyNertsAction exampleCovered (TableauToTableau ''p1'' 0 1 ''q'')) ! 0) =
     [[], [exampleCard Spades RK ''k'' True, exampleCard Hearts RQ ''q'' True,
           exampleCard Spades RJ ''j'' False]]"
  by (simp add: example_defs reducer_defs movedRun_def)

text \<open>
  C7, amended. A \<open>tableau_to_tableau\<close> action is accepted only if the named card, the
  first card of the moved run, is face-up. If moreover no face-down card lies above a
  face-up one in the source column, every card of the moved run is face-up. Every state
  reached from a deal has only such columns.
\<close>

theorem C7_moved_run_face_up:
  assumes "accepted s (TableauToTableau pid i j cid)"
    and "actingIndex s (TableauToTableau pid i j cid) = Some k"
  shows "let p = players s ! k; moving = movedRun p i cid in
     moving \<noteq> [] \<and> faceUp (hd moving) \<and> id_card (hd moving) = cid \<and>
     (\<forall>source. nth_js (tableau p) i = Some source \<and> faceUpClosed source \<longrightarrow>
        list_all faceUp moving) \<and>
     list_all (\<lambda>q. list_all faceUpClosed (tableau q))
       (players (run (initNerts config rnd now) actions))"
proof -
  define p where "p = players s ! k"
  from assms obtain p' fs' d where
    "switch_case p (foundations s) (TableauToTableau pid i j cid) = Some (p', fs', d, True)"
    unfolding p_def by (rule accepted_switch)
  then have "tableau_to_tableau p (foundations s) i j cid = Some (p', fs', d, True)" by simp
  from tableau_to_tableau_Some[OF this]
  obtain idx where i: "0 \<le> i" "nat i < length (tableau p)" and
    fi: "findIndex (\<lambda>c. id_card c = cid) (tableau p ! nat i) = Some idx" and
    idx: "idx < length (tableau p ! nat i)" and
    up: "faceUp (tableau p ! nat i ! idx)"
    by (elim exE conjE) (rule that)
  have src: "nth_js (tableau p) i = Some (tableau p ! nat i)"
    using i by (rule nth_js_in_range)
  have mv: "movedRun p i cid = drop idx (tableau p ! nat i)"
    by (simp add: movedRun_def src fi)
  have ne: "movedRun p i cid \<noteq> []" using idx by (simp add: mv)
  have hd: "hd (movedRun p i cid) = tableau p ! nat i ! idx"
    using idx by (simp add: mv hd_drop_conv_nth)
  have cid: "id_card (hd (movedRun p i cid)) = cid"
    using findIndex_Some[OF fi] by (simp add: hd)
  have closed: "list_all faceUp (movedRun p i cid)"
    if "nth_js (tableau p) i = Some source" "faceUpClosed source" for source
  proof -
    from that(1) src have "source = tableau p ! nat i" by simp
    with that(2) have "faceUpClosed (movedRun p i cid)"
      by (simp add: mv faceUpClosed_drop)
    moreover have "faceUp (hd (movedRun p i cid))" using up by (simp add: hd)
    ultimately show ?thesis using ne by (intro faceUpClosed_all)
  qed
  have "list_all faceUpPiles (players (run (initNerts config rnd now) actions))"
    using faceUpPiles_initNerts by (rule run_faceUp)
  then have reach: "list_all (\<lambda>q. list_all faceUpClosed (tableau q))
       (players (run (initNerts config rnd now) actions))"
    by (auto simp: list_all_iff faceUpPiles_def intro: all_faceUpClosed)
  from ne up hd cid closed reach show ?thesis
    unfolding Let_def p_def[symmetric] by simp
qed

theorem C7_moved_run_face_up_witness:
  "accepted exampleMidgame (TableauToTableau ''p1'' 0 1 ''t0'') \<and>
   actingIndex exampleMidgame (TableauToTableau ''p1'' 0 1 ''t0'') = Some 0 \<and>
   nth_js (tableau (players exampleMidgame ! 0)) 0 = Some [exampleCard Hearts RQ ''t0'' True] \<and>
   faceUpClosed [exampleCard Hearts RQ ''t0'' True] \<and>
   movedRun (players exampleMidgame ! 0) 0 ''t0'' \<noteq> [] \<and>
   list_all faceUp (movedRun (players exampleMidgame ! 0) 0 ''t0'')"
proof -
  have a: "accepted exampleMidgame (TableauToTableau ''p1'' 0 1 ''t0'')"
    by (simp add: example_defs reducer_defs)
  have k: "actingIndex exampleMidgame (TableauToTableau ''p1'' 0 1 ''t0'') = Some 0"
    by (simp add: example_defs actingIndex_def)
  have c: "nth_js (tableau (players exampleMidgame ! 0)) 0 =
      Some [exampleCard Hearts RQ ''t0'' True]"
    by (simp add: example_defs nth_js_def)
  have u: "faceUpClosed [exampleCard Hearts RQ ''t0'' True]"
    by (simp add: faceUpClosed_def)
  from C7_moved_run_face_up[OF a k] c u
  have "movedRun (players exampleMidgame ! 0) 0 ''t0'' \<noteq> [] \<and>
      list_all faceUp (movedRun (players exampleMidgame ! 0) 0 ''t0'')"
    unfolding Let_def by blast
  with a k c u show ?thesis by simp
qed







end
